theory Spec2Isabelle
  imports Main "HOL-Library.Word" "HOL-Library.Multiset"
begin

section \<open>Flattening JSON log messages into fields (package logstorage)\<close>

subsection \<open>Fields and the JSON value tree\<close>

text \<open>
  A field is a name/value pair of byte strings. In the source both strings are views into the
  parser's buffer \<open>buf\<close>; the buffer only grows while one message is flattened, and a
  reallocated buffer keeps the old bytes alive for the views that point at them, so within a
  parse a view always reads the bytes it was made from. The record holds those bytes.
\<close>

record Field =
  Name :: string
  Value :: string

text \<open>
  Modelled from the spec: the type \<open>fastjson.Value\<close> is declared outside the source
  file. It is the typed value tree the tokenizer hands over (object, array, string, number,
  true, false, null). An object keeps its members as a list of key/value pairs, in the
  order \<open>Visit\<close> walks them, with repeated keys kept; keys and string values are the
  decoded bytes; a number keeps its source text.
\<close>

datatype Value =
    JNull
  | JObject "(string \<times> Value) list"
  | JArray "Value list"
  | JString string
  | JNumber string
  | JTrue
  | JFalse

text \<open>
  Modelled from the spec: \<open>fastjson.Type\<close>, the closed enumeration of value types that
  the \<open>switch\<close> of \<open>appendLogFields\<close> names, and \<open>Value.Type\<close>, the type of a value.
\<close>

datatype Type = TypeNull | TypeObject | TypeArray | TypeString | TypeNumber | TypeTrue | TypeFalse

fun Value_Type :: "Value \<Rightarrow> Type" where
  "Value_Type JNull = TypeNull"
| "Value_Type (JObject kvs) = TypeObject"
| "Value_Type (JArray a) = TypeArray"
| "Value_Type (JString s) = TypeString"
| "Value_Type (JNumber s) = TypeNumber"
| "Value_Type JTrue = TypeTrue"
| "Value_Type JFalse = TypeFalse"

text \<open>
  Modelled from the spec: \<open>Value.GetStringBytes\<close>, the decoded content of a string value
  (nothing for a value that is not a string).
\<close>

fun GetStringBytes :: "Value \<Rightarrow> string" where
  "GetStringBytes (JString s) = s"
| "GetStringBytes v = []"

text \<open>
  Modelled from the spec: the tokenizer is the library behind the field \<open>p\<close> of
  \<open>JSONParser\<close>; its code is outside the source file, and the specification takes it as
  a black box. The functions that call it take it as a parameter: \<open>Parse\<close> returns the
  error text or the value tree, \<open>escapeString\<close> is the quoting of a string inside a
  serialised array or object.
\<close>

record tokenizer =
  Parse :: "string \<Rightarrow> string + Value"
  escapeString :: "string \<Rightarrow> string"

text \<open>
  Modelled from the spec: the separator-joined concatenation used by the textual form of
  arrays and objects below.
\<close>

fun join :: "string \<Rightarrow> string list \<Rightarrow> string" where
  "join sep [] = []"
| "join sep [x] = x"
| "join sep (x # y # xs) = x @ sep @ join sep (y # xs)"

text \<open>
  Modelled from the spec: the canonical textual JSON form of a value (\<open>[1,2]\<close>,
  \<open>123\<close>, \<open>true\<close>): no white space, elements separated by commas, a number as its
  source text, strings quoted by the tokenizer's \<open>escapeString\<close>.
\<close>

fun marshal :: "(string \<Rightarrow> string) \<Rightarrow> Value \<Rightarrow> string" where
  "marshal esc JNull = ''null''"
| "marshal esc (JObject kvs) =
     ''{'' @ join '','' (map (\<lambda>kv. esc (fst kv) @ '':'' @ marshal esc (snd kv)) kvs) @ ''}''"
| "marshal esc (JArray a) = ''['' @ join '','' (map (marshal esc) a) @ '']''"
| "marshal esc (JString s) = esc s"
| "marshal esc (JNumber s) = s"
| "marshal esc JTrue = ''true''"
| "marshal esc JFalse = ''false''"

text \<open>
  Modelled from the spec: \<open>Value.MarshalTo\<close> belongs to the tokenizer library and is
  missing from the source file; it appends the textual form of the value to the buffer.
\<close>

definition MarshalTo :: "(string \<Rightarrow> string) \<Rightarrow> string \<Rightarrow> Value \<Rightarrow> string" where
  "MarshalTo esc dst v = dst @ marshal esc v"

subsection \<open>appendLogField and appendLogFields\<close>

text \<open>
  \<open>appendLogField\<close> appends the prefix and the key to the buffer and takes the name as
  the slice of the buffer from the old length on.
\<close>

definition appendLogField ::
    "Field list \<Rightarrow> string \<Rightarrow> string \<Rightarrow> string \<Rightarrow> string \<Rightarrow> Field list \<times> string" where
  "appendLogField dst dstBuf prefixBuf k val =
     (let dstBufLen = length dstBuf;
          dstBuf1 = dstBuf @ prefixBuf;
          dstBuf2 = dstBuf1 @ k;
          name = drop dstBufLen dstBuf2
      in (dst @ [\<lparr>Field.Name = name, Value = val\<rparr>], dstBuf2))"

text \<open>
  \<open>appendLogFields\<close> with the loop of \<open>Object.Visit\<close> and the closure it is given. The
  closure updates the three variables \<open>dst\<close>, \<open>dstBuf\<close> and \<open>prefixBuf\<close> it captures;
  here it takes them as a triple and returns them. \<open>GetObject\<close> is nil for a value that
  is not an object and \<open>Visit\<close> on nil calls nothing, hence the six equations that return
  the arguments. The \<open>switch\<close> is on the seven values of \<open>Type\<close>, in the order of the
  source; its \<open>default\<close> branch, the panic, has no value of the type left to take it.
  The truncation \<open>prefixBuf[:prefixLen]\<close> is \<open>take\<close>: the buffer it is applied to is
  never shorter than \<open>prefixLen\<close> (it is the extended prefix, see \<open>appendLogFields_prefixBuf\<close>).
\<close>

fun appendLogFields ::
    "(string \<Rightarrow> string) \<Rightarrow> Field list \<Rightarrow> string \<Rightarrow> string \<Rightarrow> Value
      \<Rightarrow> Field list \<times> string \<times> string"
and Visit ::
    "(string \<Rightarrow> string) \<Rightarrow> (string \<times> Value) list \<Rightarrow> Field list \<times> string \<times> string
      \<Rightarrow> Field list \<times> string \<times> string"
and appendLogFields_func ::
    "(string \<Rightarrow> string) \<Rightarrow> string \<Rightarrow> Value \<Rightarrow> Field list \<times> string \<times> string
      \<Rightarrow> Field list \<times> string \<times> string"
where
  "appendLogFields esc dst dstBuf prefixBuf (JObject kvs) = Visit esc kvs (dst, dstBuf, prefixBuf)"
| "appendLogFields esc dst dstBuf prefixBuf JNull = (dst, dstBuf, prefixBuf)"
| "appendLogFields esc dst dstBuf prefixBuf (JArray a) = (dst, dstBuf, prefixBuf)"
| "appendLogFields esc dst dstBuf prefixBuf (JString s) = (dst, dstBuf, prefixBuf)"
| "appendLogFields esc dst dstBuf prefixBuf (JNumber s) = (dst, dstBuf, prefixBuf)"
| "appendLogFields esc dst dstBuf prefixBuf JTrue = (dst, dstBuf, prefixBuf)"
| "appendLogFields esc dst dstBuf prefixBuf JFalse = (dst, dstBuf, prefixBuf)"
| "Visit esc [] vars = vars"
| "Visit esc ((k, v) # kvs) vars = Visit esc kvs (appendLogFields_func esc k v vars)"
| "appendLogFields_func esc k v (dst, dstBuf, prefixBuf) =
     (case Value_Type v of
        TypeNull \<Rightarrow> (dst, dstBuf, prefixBuf)
      | TypeObject \<Rightarrow>
          (let prefixLen = length prefixBuf;
               prefixBuf1 = prefixBuf @ k;
               prefixBuf2 = prefixBuf1 @ ''.'';
               (dst1, dstBuf1, prefixBuf3) = appendLogFields esc dst dstBuf prefixBuf2 v;
               prefixBuf4 = take prefixLen prefixBuf3
           in (dst1, dstBuf1, prefixBuf4))
      | TypeArray \<Rightarrow>
          (let dstBufLen = length dstBuf;
               dstBuf1 = MarshalTo esc dstBuf v;
               val = drop dstBufLen dstBuf1;
               (dst1, dstBuf2) = appendLogField dst dstBuf1 prefixBuf k val
           in (dst1, dstBuf2, prefixBuf))
      | TypeNumber \<Rightarrow>
          (let dstBufLen = length dstBuf;
               dstBuf1 = MarshalTo esc dstBuf v;
               val = drop dstBufLen dstBuf1;
               (dst1, dstBuf2) = appendLogField dst dstBuf1 prefixBuf k val
           in (dst1, dstBuf2, prefixBuf))
      | TypeTrue \<Rightarrow>
          (let dstBufLen = length dstBuf;
               dstBuf1 = MarshalTo esc dstBuf v;
               val = drop dstBufLen dstBuf1;
               (dst1, dstBuf2) = appendLogField dst dstBuf1 prefixBuf k val
           in (dst1, dstBuf2, prefixBuf))
      | TypeFalse \<Rightarrow>
          (let dstBufLen = length dstBuf;
               dstBuf1 = MarshalTo esc dstBuf v;
               val = drop dstBufLen dstBuf1;
               (dst1, dstBuf2) = appendLogField dst dstBuf1 prefixBuf k val
           in (dst1, dstBuf2, prefixBuf))
      | TypeString \<Rightarrow>
          (let dstBufLen = length dstBuf;
               dstBuf1 = dstBuf @ GetStringBytes v;
               val = drop dstBufLen dstBuf1;
               (dst1, dstBuf2) = appendLogField dst dstBuf1 prefixBuf k val
           in (dst1, dstBuf2, prefixBuf)))"

subsection \<open>The parser instance\<close>

text \<open>
  \<open>JSONParser\<close> without its tokenizer field \<open>p\<close>, which is the parameter \<open>tk\<close> below.
  A slice cut back to length zero (\<open>[:0]\<close>) is the empty list; \<open>clear\<close> zeroes elements
  that the cut then drops.
\<close>

record JSONParser =
  Fields :: "Field list"
  buf :: string
  prefixBuf :: string

definition JSONParser_zero :: JSONParser where
  "JSONParser_zero = \<lparr>Fields = [], buf = [], prefixBuf = []\<rparr>"

definition resetNobuf :: "JSONParser \<Rightarrow> JSONParser" where
  "resetNobuf jp = jp\<lparr>Fields := take 0 (Fields jp), prefixBuf := take 0 (prefixBuf jp)\<rparr>"

definition reset :: "JSONParser \<Rightarrow> JSONParser" where
  "reset jp = (let jp1 = resetNobuf jp in jp1\<lparr>buf := take 0 (buf jp1)\<rparr>)"

text \<open>
  The two errors of \<open>parseLogMessage\<close>: \<open>cannot parse json: %w\<close> around the tokenizer's
  error, and \<open>expecting json dictionary; got %s\<close> with the type found. They carry the
  names the specification gives them.
\<close>

datatype error = MalformedInput string | UnexpectedRootType Type

text \<open>
  \<open>parseLogMessage\<close> returns the error, if any, and the parser after the call. Both error
  returns come before anything is written to the parser.
\<close>

definition parseLogMessage ::
    "tokenizer \<Rightarrow> string \<Rightarrow> string \<Rightarrow> bool \<Rightarrow> JSONParser \<Rightarrow> error option \<times> JSONParser" where
  "parseLogMessage tk msg prefix resetBuf jp =
     (case Parse tk msg of
        Inl err \<Rightarrow> (Some (MalformedInput err), jp)
      | Inr v \<Rightarrow>
          (let t = Value_Type v
           in if t \<noteq> TypeObject then (Some (UnexpectedRootType t), jp)
              else
                (let jp1 = (if resetBuf then reset jp else resetNobuf jp);
                     jp2 = jp1\<lparr>prefixBuf := take 0 (prefixBuf jp1) @ prefix\<rparr>;
                     (dst, dstBuf, pBuf) =
                        appendLogFields (escapeString tk) (Fields jp2) (buf jp2) (prefixBuf jp2) v
                 in (None, jp2\<lparr>Fields := dst, buf := dstBuf, prefixBuf := pBuf\<rparr>))))"

definition ParseLogMessageNoResetBuf ::
    "tokenizer \<Rightarrow> string \<Rightarrow> string \<Rightarrow> JSONParser \<Rightarrow> error option \<times> JSONParser" where
  "ParseLogMessageNoResetBuf tk msg prefix jp = parseLogMessage tk msg prefix False jp"

definition ParseLogMessage ::
    "tokenizer \<Rightarrow> string \<Rightarrow> string \<Rightarrow> JSONParser \<Rightarrow> error option \<times> JSONParser" where
  "ParseLogMessage tk msg prefix jp = parseLogMessage tk msg prefix True jp"

text \<open>\<open>PutJSONParser\<close> resets the parser before it goes back to the pool; the value is the
  parser as the pool receives it. \<open>JSONParser_zero\<close> above is the parser
  \<open>GetJSONParser\<close> makes when the pool is empty.\<close>

definition PutJSONParser :: "JSONParser \<Rightarrow> JSONParser" where
  "PutJSONParser jp = reset jp"

text \<open>\<open>RenameField\<close>: the loop over the indices stops at the first field it renames.\<close>

fun RenameField_range :: "string \<Rightarrow> string \<Rightarrow> Field list \<Rightarrow> Field list" where
  "RenameField_range oldName newName [] = []"
| "RenameField_range oldName newName (f # rest) =
     (if Field.Name f = oldName then f\<lparr>Field.Name := newName\<rparr> # rest
      else f # RenameField_range oldName newName rest)"

definition RenameField :: "string \<Rightarrow> string \<Rightarrow> JSONParser \<Rightarrow> JSONParser" where
  "RenameField oldName newName jp =
     (if oldName = [] then jp
      else jp\<lparr>Fields := RenameField_range oldName newName (Fields jp)\<rparr>)"

subsection \<open>The specification's flattening\<close>

text \<open>
  The fields the specification asks for, written from its words and compared with the code
  below: members in visiting order; a null member gives nothing; a nested object is
  flattened under the prefix extended by its key and a dot; a string gives its decoded
  content; an array, number or boolean gives its textual form. Nothing is merged.
\<close>

fun spec_flatten :: "(string \<Rightarrow> string) \<Rightarrow> string \<Rightarrow> (string \<times> Value) list \<Rightarrow> Field list" where
  "spec_flatten esc pfx [] = []"
| "spec_flatten esc pfx ((k, JNull) # kvs) = spec_flatten esc pfx kvs"
| "spec_flatten esc pfx ((k, JObject inner) # kvs) =
     spec_flatten esc (pfx @ k @ ''.'') inner @ spec_flatten esc pfx kvs"
| "spec_flatten esc pfx ((k, JString s) # kvs) =
     \<lparr>Field.Name = pfx @ k, Value = s\<rparr> # spec_flatten esc pfx kvs"
| "spec_flatten esc pfx ((k, v) # kvs) =
     \<lparr>Field.Name = pfx @ k, Value = marshal esc v\<rparr> # spec_flatten esc pfx kvs"

text \<open>The members \<open>Visit\<close> walks: those of an object, none for any other value.\<close>

fun members :: "Value \<Rightarrow> (string \<times> Value) list" where
  "members (JObject kvs) = kvs"
| "members v = []"

text \<open>The bytes a list of fields leaves in the buffer: for each field its value, then its name.\<close>

definition field_bytes :: "Field list \<Rightarrow> string" where
  "field_bytes fs = concat (map (\<lambda>f. Field.Value f @ Field.Name f) fs)"

text \<open>The number of members, at any depth, that are neither null nor an object.\<close>

fun count_leaves :: "(string \<times> Value) list \<Rightarrow> nat" where
  "count_leaves [] = 0"
| "count_leaves ((k, JNull) # kvs) = count_leaves kvs"
| "count_leaves ((k, JObject inner) # kvs) = count_leaves inner + count_leaves kvs"
| "count_leaves ((k, v) # kvs) = Suc (count_leaves kvs)"

subsection \<open>A tokenizer\<close>

text \<open>
  The tokenizer (\<open>fastjson.Parser.Parse\<close>) is missing from the source file; the
  specification takes it as a black box that turns a text holding one JSON value into a
  typed value tree or fails. The theorems below hold for every tokenizer. \<open>fastjson\<close>
  is one tokenizer, used where a statement is evaluated on a text: it skips white space,
  keeps the members of an object in the order of the text, decodes the escapes of keys and
  strings, keeps a number as the run of number characters it finds, and fails on anything
  left after the value.
\<close>

text \<open>Modelled from the spec: the white space between JSON tokens (space, line feed, tab,
  carriage return).\<close>

definition isWS :: "char \<Rightarrow> bool" where
  "isWS c = (c = CHR 0x20 \<or> c = CHR 0x0A \<or> c = CHR 0x09 \<or> c = CHR 0x0D)"

text \<open>Modelled from the spec: the text after its leading white space.\<close>

definition skipWS :: "string \<Rightarrow> string" where
  "skipWS s = dropWhile isWS s"

text \<open>Modelled from the spec: the raw content of a string up to its closing quote, and the
  text after the quote; a backslash takes the next byte with it. No closing quote is an
  error.\<close>

fun parseRawString :: "string \<Rightarrow> string \<Rightarrow> (string \<times> string) option" where
  "parseRawString raw [] = None"
| "parseRawString raw [c] = (if c = CHR 0x22 then Some (raw, []) else None)"
| "parseRawString raw (c # e # s) =
     (if c = CHR 0x22 then Some (raw, e # s)
      else if c = CHR 0x5C then parseRawString (raw @ [c, e]) s
      else parseRawString (raw @ [c]) (e # s))"

text \<open>Modelled from the spec: the value of a hexadecimal digit.\<close>

definition hexval :: "char \<Rightarrow> nat option" where
  "hexval c =
     (let n = of_char c :: nat
      in if 48 \<le> n \<and> n \<le> 57 then Some (n - 48)
         else if 65 \<le> n \<and> n \<le> 70 then Some (n - 55)
         else if 97 \<le> n \<and> n \<le> 102 then Some (n - 87)
         else None)"

text \<open>Modelled from the spec: the number written by the first four bytes, if they are
  hexadecimal digits.\<close>

definition hex4 :: "string \<Rightarrow> nat option" where
  "hex4 s =
     (case map hexval (take 4 s) of
        [Some a, Some b, Some c, Some d] \<Rightarrow> Some (((a * 16 + b) * 16 + c) * 16 + d)
      | _ \<Rightarrow> None)"

text \<open>Modelled from the spec: the UTF-8 bytes of a code point.\<close>

definition utf8 :: "nat \<Rightarrow> string" where
  "utf8 n =
     (if n < 0x80 then [char_of n]
      else if n < 0x800 then [char_of (0xC0 + n div 64), char_of (0x80 + n mod 64)]
      else if n < 0x10000 then
        [char_of (0xE0 + n div 4096), char_of (0x80 + n div 64 mod 64), char_of (0x80 + n mod 64)]
      else
        [char_of (0xF0 + n div 262144), char_of (0x80 + n div 4096 mod 64),
         char_of (0x80 + n div 64 mod 64), char_of (0x80 + n mod 64)])"

text \<open>Modelled from the spec: the decoding of what follows a backslash and \<open>u\<close>: the
  bytes it stands for and the number of input bytes used. A surrogate pair is one code point; an escape
  that cannot be decoded is kept as it is written.\<close>

definition unescape_u :: "string \<Rightarrow> string \<times> nat" where
  "unescape_u s =
     (case hex4 s of
        None \<Rightarrow> ([CHR 0x5C, CHR ''u''], 0)
      | Some x \<Rightarrow>
          if \<not> (0xD800 \<le> x \<and> x < 0xE000) then (utf8 x, 4)
          else if take 2 (drop 4 s) \<noteq> [CHR 0x5C, CHR ''u''] then ([CHR 0x5C, CHR ''u''] @ take 4 s, 4)
          else (case hex4 (drop 6 s) of
                  None \<Rightarrow> ([CHR 0x5C, CHR ''u''] @ take 4 s, 4)
                | Some x1 \<Rightarrow>
                    if x < 0xDC00 \<and> 0xDC00 \<le> x1 \<and> x1 < 0xE000
                    then (utf8 (0x10000 + (x - 0xD800) * 0x400 + (x1 - 0xDC00)), 10)
                    else (utf8 0xFFFD, 10)))"

text \<open>Modelled from the spec: the decoded content of a raw string (the unescaped text,
  not the quoted one).\<close>

fun unescapeStringBestEffort :: "string \<Rightarrow> string" where
  "unescapeStringBestEffort [] = []"
| "unescapeStringBestEffort [c] = [c]"
| "unescapeStringBestEffort (c # e # s) =
     (if c \<noteq> CHR 0x5C then c # unescapeStringBestEffort (e # s)
      else if e = CHR 0x22 \<or> e = CHR 0x5C \<or> e = CHR ''/'' then e # unescapeStringBestEffort s
      else if e = CHR ''b'' then CHR 0x08 # unescapeStringBestEffort s
      else if e = CHR ''f'' then CHR 0x0C # unescapeStringBestEffort s
      else if e = CHR ''n'' then CHR 0x0A # unescapeStringBestEffort s
      else if e = CHR ''r'' then CHR 0x0D # unescapeStringBestEffort s
      else if e = CHR ''t'' then CHR 0x09 # unescapeStringBestEffort s
      else if e = CHR ''u'' then
        fst (unescape_u s) @ unescapeStringBestEffort (drop (snd (unescape_u s)) s)
      else c # e # unescapeStringBestEffort s)"

text \<open>Modelled from the spec: the bytes a number is written with.\<close>

definition isNumberChar :: "char \<Rightarrow> bool" where
  "isNumberChar c =
     (let n = of_char c :: nat
      in (48 \<le> n \<and> n \<le> 57) \<or> c = CHR ''.'' \<or> c = CHR ''-''
         \<or> c = CHR ''e'' \<or> c = CHR ''E'' \<or> c = CHR ''+'')"

text \<open>Modelled from the spec: the reader of one JSON value, of the elements of an array
  and of the members of an object. Each returns the error text, or the value and the text
  left. The first argument is fuel: it bounds the number of nested calls.\<close>

fun parseValue :: "nat \<Rightarrow> string \<Rightarrow> string + Value \<times> string"
and parseArray :: "nat \<Rightarrow> string \<Rightarrow> Value list \<Rightarrow> string + Value \<times> string"
and parseObject :: "nat \<Rightarrow> string \<Rightarrow> (string \<times> Value) list \<Rightarrow> string + Value \<times> string"
where
  "parseValue 0 s = Inl ''too big depth for the nested JSON''"
| "parseValue (Suc n) [] = Inl ''cannot parse empty string''"
| "parseValue (Suc n) (c # s) =
     (if c = CHR ''{'' then
        (if take 1 (skipWS s) = ''}'' then Inr (JObject [], drop 1 (skipWS s))
         else parseObject n (skipWS s) [])
      else if c = CHR ''['' then
        (if take 1 (skipWS s) = '']'' then Inr (JArray [], drop 1 (skipWS s))
         else parseArray n (skipWS s) [])
      else if c = CHR 0x22 then
        (case parseRawString [] s of
           None \<Rightarrow> Inl ''cannot parse string: missing closing quote''
         | Some (raw, tail) \<Rightarrow> Inr (JString (unescapeStringBestEffort raw), tail))
      else if take 4 (c # s) = ''true'' then Inr (JTrue, drop 3 s)
      else if take 5 (c # s) = ''false'' then Inr (JFalse, drop 4 s)
      else if take 4 (c # s) = ''null'' then Inr (JNull, drop 3 s)
      else if isNumberChar c then Inr (JNumber (takeWhile isNumberChar (c # s)), dropWhile isNumberChar s)
      else Inl ''unexpected value found'')"
| "parseArray 0 s a = Inl ''too big depth for the nested JSON''"
| "parseArray (Suc n) s a =
     (case parseValue n s of
        Inl err \<Rightarrow> Inl err
      | Inr (v, tail) \<Rightarrow>
          (case skipWS tail of
             [] \<Rightarrow> Inl ''unexpected end of array''
           | c # s1 \<Rightarrow>
               if c = CHR '','' then parseArray n (skipWS s1) (a @ [v])
               else if c = CHR '']'' then Inr (JArray (a @ [v]), s1)
               else Inl ''missing , after array value''))"
| "parseObject 0 s kvs = Inl ''too big depth for the nested JSON''"
| "parseObject (Suc n) s kvs =
     (case s of
        [] \<Rightarrow> Inl ''cannot find opening quote for object key''
      | q # s1 \<Rightarrow>
          if q \<noteq> CHR 0x22 then Inl ''cannot find opening quote for object key''
          else (case parseRawString [] s1 of
             None \<Rightarrow> Inl ''cannot parse object key: missing closing quote''
           | Some (raw, s2) \<Rightarrow>
               (case skipWS s2 of
                  [] \<Rightarrow> Inl ''missing : after object key''
                | c # s3 \<Rightarrow>
                    if c \<noteq> CHR '':'' then Inl ''missing : after object key''
                    else (case parseValue n (skipWS s3) of
                       Inl err \<Rightarrow> Inl err
                     | Inr (v, s4) \<Rightarrow>
                         (case skipWS s4 of
                            [] \<Rightarrow> Inl ''unexpected end of object''
                          | d # s5 \<Rightarrow>
                              if d = CHR '','' then
                                parseObject n (skipWS s5) (kvs @ [(unescapeStringBestEffort raw, v)])
                              else if d = CHR ''}'' then
                                Inr (JObject (kvs @ [(unescapeStringBestEffort raw, v)]), s5)
                              else Inl ''missing , after object value'')))))"

text \<open>Modelled from the spec: \<open>Parse\<close> reads exactly one JSON value; the fuel is ample
  for the length of the text.\<close>

definition fastjson_Parse :: "string \<Rightarrow> string + Value" where
  "fastjson_Parse s =
     (case parseValue (2 * length s + 2) (skipWS s) of
        Inl err \<Rightarrow> Inl err
      | Inr (v, tail) \<Rightarrow> if skipWS tail = [] then Inr v else Inl ''unexpected tail'')"

text \<open>Modelled from the spec: a hexadecimal digit.\<close>

definition hexdigit :: "nat \<Rightarrow> char" where
  "hexdigit n = (if n < 10 then char_of (48 + n) else char_of (87 + n))"

text \<open>Modelled from the spec: a byte as it is written inside a quoted JSON string.\<close>

fun escape_char :: "char \<Rightarrow> string" where
  "escape_char c =
     (if c = CHR 0x22 then [CHR 0x5C, CHR 0x22]
      else if c = CHR 0x5C then [CHR 0x5C, CHR 0x5C]
      else if c = CHR 0x0A then [CHR 0x5C, CHR ''n'']
      else if c = CHR 0x0D then [CHR 0x5C, CHR ''r'']
      else if c = CHR 0x09 then [CHR 0x5C, CHR ''t'']
      else if (of_char c :: nat) < 0x20 then
        [CHR 0x5C, CHR ''u'', CHR ''0'', CHR ''0'',
         hexdigit ((of_char c :: nat) div 16), hexdigit ((of_char c :: nat) mod 16)]
      else [c])"

text \<open>Modelled from the spec: quoting for serialised strings: the text between double
  quotes, with the quote, the backslash and the control characters escaped.\<close>

definition fastjson_escapeString :: "string \<Rightarrow> string" where
  "fastjson_escapeString s = CHR 0x22 # concat (map escape_char s) @ [CHR 0x22]"

text \<open>Modelled from the spec: the tokenizer made of the two functions above.\<close>

definition fastjson :: tokenizer where
  "fastjson = \<lparr>Parse = fastjson_Parse, escapeString = fastjson_escapeString\<rparr>"

section \<open>Admission limits on label sets (package storage)\<close>

text \<open>
  A label is a name/value pair of byte strings (\<open>prompbmarshal.Label\<close>); Go's \<open>len\<close> of a
  string counts bytes, as \<open>length\<close> does on a \<open>char list\<close>.
\<close>

record Label =
  Name :: string
  Value :: string

text \<open>
  The arguments of the three \<open>logger.Warnf\<close> calls, kept as data: the text formatting
  (\<open>%q\<close>, \<open>prompbmarshal.LabelsToString\<close>) is outside this file.
\<close>

datatype warning =
    WarnTooManyLabels nat "Label list" int
  | WarnTooLongLabelValue Label "Label list" nat int
  | WarnTooLongLabelName Label "Label list" nat nat

text \<open>
  The package-level variables. The two configurable limits are Go \<open>int\<close>s set from
  command-line flags, so they may be negative. The counters are \<open>atomic.Uint64\<close>, modelled
  as 64-bit words (\<open>Add(1)\<close> wraps). Each \<open>time.Ticker\<close> is seen through its
  channel \<open>C\<close>, which holds at most one tick: the boolean says whether a tick is
  waiting there. The log sink is the list of warnings written so far.
\<close>

record globals =
  maxLabelsPerTimeseries :: int
  maxLabelValueLen :: int
  ignoredSeriesWithTooManyLabels :: "64 word"
  ignoredSeriesWithTooLongLabelName :: "64 word"
  ignoredSeriesWithTooLongLabelValue :: "64 word"
  ignoredSeriesWithTooManyLabelsLogTicker :: bool
  ignoredSeriesWithTooLongLabelNameLogTicker :: bool
  ignoredSeriesWithTooLongLabelValueLogTicker :: bool
  logged :: "warning list"

definition maxLabelNameLen :: nat where
  "maxLabelNameLen = 256"

text \<open>The initial values of the package variables: 40 labels, values of 4 * 1024 bytes.\<close>

definition initial_globals :: globals where
  "initial_globals =
     \<lparr>maxLabelsPerTimeseries = 40, maxLabelValueLen = 4 * 1024,
      ignoredSeriesWithTooManyLabels = 0, ignoredSeriesWithTooLongLabelName = 0,
      ignoredSeriesWithTooLongLabelValue = 0,
      ignoredSeriesWithTooManyLabelsLogTicker = False,
      ignoredSeriesWithTooLongLabelNameLogTicker = False,
      ignoredSeriesWithTooLongLabelValueLogTicker = False,
      logged = []\<rparr>"

text \<open>\<open>InitLabelsLimits\<close>; the registration of the three gauges reads the counters and
  writes nothing.\<close>

definition InitLabelsLimits :: "int \<Rightarrow> int \<Rightarrow> globals \<Rightarrow> globals" where
  "InitLabelsLimits inputMaxLabelsPerTimeseries inputMaxLabelValueLen g =
     g\<lparr>maxLabelsPerTimeseries := inputMaxLabelsPerTimeseries,
       maxLabelValueLen := inputMaxLabelValueLen\<rparr>"

text \<open>
  The three trackers: the counter is incremented first, then the non-blocking
  \<open>select\<close> takes the waiting tick, if there is one, and writes the warning.
\<close>

definition trackIgnoredSeriesWithTooManyLabels :: "Label list \<Rightarrow> globals \<Rightarrow> globals" where
  "trackIgnoredSeriesWithTooManyLabels labels g =
     (let g1 = g\<lparr>ignoredSeriesWithTooManyLabels := ignoredSeriesWithTooManyLabels g + 1\<rparr>
      in if ignoredSeriesWithTooManyLabelsLogTicker g1
         then g1\<lparr>ignoredSeriesWithTooManyLabelsLogTicker := False,
                 logged := logged g1 @
                   [WarnTooManyLabels (length labels) labels (maxLabelsPerTimeseries g1)]\<rparr>
         else g1)"

definition trackIgnoredSeriesWithTooLongLabelValue ::
    "Label \<Rightarrow> Label list \<Rightarrow> globals \<Rightarrow> globals" where
  "trackIgnoredSeriesWithTooLongLabelValue l labels g =
     (let g1 = g\<lparr>ignoredSeriesWithTooLongLabelValue := ignoredSeriesWithTooLongLabelValue g + 1\<rparr>
      in if ignoredSeriesWithTooLongLabelValueLogTicker g1
         then g1\<lparr>ignoredSeriesWithTooLongLabelValueLogTicker := False,
                 logged := logged g1 @
                   [WarnTooLongLabelValue l labels (length (Label.Value l)) (maxLabelValueLen g1)]\<rparr>
         else g1)"

definition trackIgnoredSeriesWithTooLongLabelName ::
    "Label \<Rightarrow> Label list \<Rightarrow> globals \<Rightarrow> globals" where
  "trackIgnoredSeriesWithTooLongLabelName l labels g =
     (let g1 = g\<lparr>ignoredSeriesWithTooLongLabelName := ignoredSeriesWithTooLongLabelName g + 1\<rparr>
      in if ignoredSeriesWithTooLongLabelNameLogTicker g1
         then g1\<lparr>ignoredSeriesWithTooLongLabelNameLogTicker := False,
                 logged := logged g1 @
                   [WarnTooLongLabelName l labels (length (Label.Name l)) maxLabelNameLen]\<rparr>
         else g1)"

text \<open>
  \<open>ExceedingLabels\<close>: the count check, then the \<open>range\<close> loop over the labels. The loop
  carries the whole slice \<open>labels\<close>, which the trackers log. The result is the returned
  boolean and the package variables after the call.
\<close>

fun ExceedingLabels_range :: "Label list \<Rightarrow> Label list \<Rightarrow> globals \<Rightarrow> bool \<times> globals" where
  "ExceedingLabels_range labels [] g = (False, g)"
| "ExceedingLabels_range labels (l # rest) g =
     (if length (Label.Name l) > maxLabelNameLen
      then (True, trackIgnoredSeriesWithTooLongLabelName l labels g)
      else if int (length (Label.Value l)) > maxLabelValueLen g
      then (True, trackIgnoredSeriesWithTooLongLabelValue l labels g)
      else ExceedingLabels_range labels rest g)"

definition ExceedingLabels :: "Label list \<Rightarrow> globals \<Rightarrow> bool \<times> globals" where
  "ExceedingLabels labels g =
     (if int (length labels) > maxLabelsPerTimeseries g
      then (True, trackIgnoredSeriesWithTooManyLabels labels g)
      else ExceedingLabels_range labels labels g)"

text \<open>
  The specification's reading of the validator, for comparison with the code: the three
  violation kinds, the counter that belongs to each kind, what it means to violate a
  limit, and the kind the ordered, short-circuiting checks report.
\<close>

datatype violation = TooManyLabels | LabelNameTooLong | LabelValueTooLong

fun counter :: "violation \<Rightarrow> globals \<Rightarrow> 64 word" where
  "counter TooManyLabels g = ignoredSeriesWithTooManyLabels g"
| "counter LabelNameTooLong g = ignoredSeriesWithTooLongLabelName g"
| "counter LabelValueTooLong g = ignoredSeriesWithTooLongLabelValue g"

definition name_too_long :: "Label \<Rightarrow> bool" where
  "name_too_long l = (length (Label.Name l) > maxLabelNameLen)"

definition value_too_long :: "globals \<Rightarrow> Label \<Rightarrow> bool" where
  "value_too_long g l = (int (length (Label.Value l)) > maxLabelValueLen g)"

definition spec_violates :: "globals \<Rightarrow> Label list \<Rightarrow> bool" where
  "spec_violates g labels =
     (int (length labels) > maxLabelsPerTimeseries g
      \<or> (\<exists>l \<in> set labels. name_too_long l)
      \<or> (\<exists>l \<in> set labels. value_too_long g l))"

definition spec_first_violation :: "globals \<Rightarrow> Label list \<Rightarrow> violation option" where
  "spec_first_violation g labels =
     (if int (length labels) > maxLabelsPerTimeseries g then Some TooManyLabels
      else case find (\<lambda>l. name_too_long l \<or> value_too_long g l) labels of
             None \<Rightarrow> None
           | Some l \<Rightarrow> Some (if name_too_long l then LabelNameTooLong else LabelValueTooLong))"

section \<open>Properties of the flattening\<close>

text \<open>
  The code against the specification's flattening: a call of \<open>appendLogFields\<close>, of the
  loop or of the closure appends the flattening of the members it is given to the fields,
  appends their bytes to the buffer and returns the prefix buffer it received. The proof
  follows the mutual recursion of the three functions.
\<close>

lemma appendLogField_eq:
  "appendLogField dst dstBuf pfx k val =
     (dst @ [\<lparr>Field.Name = pfx @ k, Value = val\<rparr>], dstBuf @ pfx @ k)"
  by (simp add: appendLogField_def Let_def)

lemma spec_flatten_Cons:
  "spec_flatten esc pfx (kv # kvs) = spec_flatten esc pfx [kv] @ spec_flatten esc pfx kvs"
proof (cases kv)
  case (Pair k v)
  then show ?thesis by (cases v) simp_all
qed

lemma spec_flatten_append:
  "spec_flatten esc pfx (xs @ ys) = spec_flatten esc pfx xs @ spec_flatten esc pfx ys"
proof (induction xs)
  case Nil
  show ?case by simp
next
  case (Cons kv xs)
  have "spec_flatten esc pfx ((kv # xs) @ ys) = spec_flatten esc pfx [kv] @ spec_flatten esc pfx (xs @ ys)"
    using spec_flatten_Cons [of esc pfx kv "xs @ ys"] by simp
  also have "\<dots> = spec_flatten esc pfx [kv] @ spec_flatten esc pfx xs @ spec_flatten esc pfx ys"
    by (simp add: Cons.IH)
  also have "\<dots> = spec_flatten esc pfx (kv # xs) @ spec_flatten esc pfx ys"
    using spec_flatten_Cons [of esc pfx kv xs] by simp
  finally show ?case .
qed

lemma field_bytes_append: "field_bytes (xs @ ys) = field_bytes xs @ field_bytes ys"
  by (simp add: field_bytes_def)

lemma appendLogFields_func_by_type:
  "Value_Type v = TypeNull \<Longrightarrow> appendLogFields_func esc k v (dst, dstBuf, pfx) = (dst, dstBuf, pfx)"
  "Value_Type v = TypeString \<Longrightarrow> appendLogFields_func esc k v (dst, dstBuf, pfx) =
     (dst @ [\<lparr>Field.Name = pfx @ k, Value = GetStringBytes v\<rparr>],
      dstBuf @ GetStringBytes v @ pfx @ k, pfx)"
  "Value_Type v \<in> {TypeArray, TypeNumber, TypeTrue, TypeFalse} \<Longrightarrow>
   appendLogFields_func esc k v (dst, dstBuf, pfx) =
     (dst @ [\<lparr>Field.Name = pfx @ k, Value = marshal esc v\<rparr>],
      dstBuf @ marshal esc v @ pfx @ k, pfx)"
  by (auto simp: appendLogField_eq MarshalTo_def Let_def)

lemma appendLogFields_func_object:
  "appendLogFields_func esc k (JObject inner) (dst, dstBuf, pfx) =
     (case appendLogFields esc dst dstBuf (pfx @ k @ ''.'') (JObject inner) of
        (dst1, dstBuf1, pfx3) \<Rightarrow> (dst1, dstBuf1, take (length pfx) pfx3))"
  by (simp add: Let_def)

lemma flatten_refines:
  "appendLogFields esc dst dstBuf pfx v =
     (dst @ spec_flatten esc pfx (members v),
      dstBuf @ field_bytes (spec_flatten esc pfx (members v)), pfx)"
  "Visit esc kvs vars =
     (fst vars @ spec_flatten esc (snd (snd vars)) kvs,
      fst (snd vars) @ field_bytes (spec_flatten esc (snd (snd vars)) kvs), snd (snd vars))"
  "appendLogFields_func esc k v vars =
     (fst vars @ spec_flatten esc (snd (snd vars)) [(k, v)],
      fst (snd vars) @ field_bytes (spec_flatten esc (snd (snd vars)) [(k, v)]), snd (snd vars))"
proof (induction esc dst dstBuf pfx v and esc kvs vars and esc k v vars
    rule: appendLogFields_Visit_appendLogFields_func.induct)
  case (9 esc k v kvs vars)
  have "Visit esc ((k, v) # kvs) vars = Visit esc kvs (appendLogFields_func esc k v vars)"
    by simp
  also note "9.IH"(2)
  finally show ?case
    unfolding "9.IH"(1)
    using spec_flatten_Cons [of esc "snd (snd vars)" "(k, v)" kvs]
    by (simp add: field_bytes_append)
next
  case (10 esc k v dst dstBuf pfx)
  show ?case
  proof (cases v)
    case (JObject inner)
    have "appendLogFields esc dst dstBuf (pfx @ k @ ''.'') v =
      (dst @ spec_flatten esc (pfx @ k @ ''.'') (members v),
       dstBuf @ field_bytes (spec_flatten esc (pfx @ k @ ''.'') (members v)),
       pfx @ k @ ''.'')"
      using "10.IH" [of "length pfx" "pfx @ k" "(pfx @ k) @ ''.''"] JObject
      by simp
    with JObject show ?thesis
      by (simp add: appendLogFields_func_object)
  qed (simp_all add: appendLogField_eq MarshalTo_def Let_def field_bytes_def)
qed (simp_all add: field_bytes_def)

text \<open>The three outcomes of \<open>parseLogMessage\<close>.\<close>

lemma parseLogMessage_object:
  assumes "Parse tk msg = Inr (JObject kvs)"
  shows "parseLogMessage tk msg prefix resetBuf jp =
     (None, \<lparr>Fields = spec_flatten (escapeString tk) prefix kvs,
             buf = (if resetBuf then [] else buf jp)
                   @ field_bytes (spec_flatten (escapeString tk) prefix kvs),
             prefixBuf = prefix\<rparr>)"
  using assms
  by (simp add: parseLogMessage_def Let_def reset_def resetNobuf_def flatten_refines(1))

lemma parseLogMessage_malformed:
  assumes "Parse tk msg = Inl err"
  shows "parseLogMessage tk msg prefix resetBuf jp = (Some (MalformedInput err), jp)"
  using assms by (simp add: parseLogMessage_def)

lemma parseLogMessage_root:
  assumes "Parse tk msg = Inr v" and "Value_Type v \<noteq> TypeObject"
  shows "parseLogMessage tk msg prefix resetBuf jp = (Some (UnexpectedRootType (Value_Type v)), jp)"
  using assms by (simp add: parseLogMessage_def Let_def)

lemma Value_Type_object: "Value_Type v = TypeObject \<Longrightarrow> \<exists>kvs. v = JObject kvs"
  by (cases v) simp_all

lemma parseLogMessage_cases:
  "(\<exists>err. Parse tk msg = Inl err
      \<and> parseLogMessage tk msg prefix resetBuf jp = (Some (MalformedInput err), jp))
   \<or> (\<exists>v. Parse tk msg = Inr v \<and> Value_Type v \<noteq> TypeObject
      \<and> parseLogMessage tk msg prefix resetBuf jp = (Some (UnexpectedRootType (Value_Type v)), jp))
   \<or> (\<exists>kvs. Parse tk msg = Inr (JObject kvs)
      \<and> fst (parseLogMessage tk msg prefix resetBuf jp) = None)"
proof (cases "Parse tk msg")
  case (Inl err)
  then show ?thesis by (simp add: parseLogMessage_malformed)
next
  case (Inr v)
  show ?thesis
  proof (cases "Value_Type v = TypeObject")
    case True
    then obtain kvs where "v = JObject kvs" using Value_Type_object by blast
    with Inr show ?thesis by (simp add: parseLogMessage_object)
  next
    case False
    with Inr show ?thesis by (simp add: parseLogMessage_root)
  qed
qed

lemma parseLogMessage_failed_unchanged:
  "fst (parseLogMessage tk msg prefix resetBuf jp) \<noteq> None
     \<Longrightarrow> snd (parseLogMessage tk msg prefix resetBuf jp) = jp"
  using parseLogMessage_cases [of tk msg prefix resetBuf jp] by auto


lemma fastjson_Parse_not_json: "fastjson_Parse ''not json{'' = Inl ''unexpected value found''"
  by code_simp



lemma fastjson_Parse_a1: \<open>fastjson_Parse ''{"a":1}'' = Inr (JObject [(''a'', JNumber ''1'')])\<close>
  by code_simp

text \<open>
  C6, as stated, fails: a parser that holds the field of an earlier message still holds it
  after a failed call. Its fields are not cleared.
\<close>

theorem failed_parse_keeps_fields_counterexample:
  \<open>ParseLogMessage fastjson ''{"a":1}'' [] JSONParser_zero
     = (None, \<lparr>Fields = [\<lparr>Field.Name = ''a'', Value = ''1''\<rparr>], buf = ''1a'', prefixBuf = []\<rparr>)
   \<and> ParseLogMessage fastjson ''not json{'' []
        \<lparr>Fields = [\<lparr>Field.Name = ''a'', Value = ''1''\<rparr>], buf = ''1a'', prefixBuf = []\<rparr>
     = (Some (MalformedInput ''unexpected value found''),
        \<lparr>Fields = [\<lparr>Field.Name = ''a'', Value = ''1''\<rparr>], buf = ''1a'', prefixBuf = []\<rparr>)
   \<and> Fields (snd (ParseLogMessage fastjson ''not json{'' []
        \<lparr>Fields = [\<lparr>Field.Name = ''a'', Value = ''1''\<rparr>], buf = ''1a'', prefixBuf = []\<rparr>)) \<noteq> []\<close>
proof -
  have a: \<open>Parse fastjson ''{"a":1}'' = Inr (JObject [(''a'', JNumber ''1'')])\<close>
    by (simp add: fastjson_def fastjson_Parse_a1)
  have b: "Parse fastjson ''not json{'' = Inl ''unexpected value found''"
    by (simp add: fastjson_def fastjson_Parse_not_json)
  show ?thesis
    by (simp add: ParseLogMessage_def parseLogMessage_object [OF a] parseLogMessage_malformed [OF b]
        JSONParser_zero_def field_bytes_def)
qed

text \<open>
  C6, amended. When a call fails, the parser after the call is the parser before it: the
  fields, the buffer and the prefix buffer are unchanged. Nothing of the failed message is
  added and nothing that was there is cleared.
\<close>

theorem failed_parse_leaves_parser:
  "fst (parseLogMessage tk msg prefix resetBuf jp) \<noteq> None \<longrightarrow>
     snd (parseLogMessage tk msg prefix resetBuf jp) = jp
     \<and> Fields (snd (parseLogMessage tk msg prefix resetBuf jp)) = Fields jp
     \<and> buf (snd (parseLogMessage tk msg prefix resetBuf jp)) = buf jp
     \<and> prefixBuf (snd (parseLogMessage tk msg prefix resetBuf jp)) = prefixBuf jp"
  using parseLogMessage_failed_unchanged [of tk msg prefix resetBuf jp] by simp

text \<open>The amended C6 on the parser of the counterexample.\<close>

theorem failed_parse_leaves_parser_witness:
  "fst (parseLogMessage fastjson ''not json{'' [] True
          \<lparr>Fields = [\<lparr>Field.Name = ''a'', Value = ''1''\<rparr>], buf = ''1a'', prefixBuf = []\<rparr>) \<noteq> None
   \<and> snd (parseLogMessage fastjson ''not json{'' [] True
          \<lparr>Fields = [\<lparr>Field.Name = ''a'', Value = ''1''\<rparr>], buf = ''1a'', prefixBuf = []\<rparr>)
      = \<lparr>Fields = [\<lparr>Field.Name = ''a'', Value = ''1''\<rparr>], buf = ''1a'', prefixBuf = []\<rparr>"
proof -
  have b: "Parse fastjson ''not json{'' = Inl ''unexpected value found''"
    by (simp add: fastjson_def fastjson_Parse_not_json)
  have c: "fst (parseLogMessage fastjson ''not json{'' [] True
          \<lparr>Fields = [\<lparr>Field.Name = ''a'', Value = ''1''\<rparr>], buf = ''1a'', prefixBuf = []\<rparr>) \<noteq> None"
    by (simp add: parseLogMessage_malformed [OF b])
  with failed_parse_leaves_parser [of fastjson "''not json{''" "[]" True
      "\<lparr>Fields = [\<lparr>Field.Name = ''a'', Value = ''1''\<rparr>], buf = ''1a'', prefixBuf = []\<rparr>"]
  show ?thesis by simp
qed

lemma mset_spec_flatten:
  "mset (spec_flatten esc pfx kvs) =
     sum_mset (image_mset (\<lambda>kv. mset (spec_flatten esc pfx [kv])) (mset kvs))"
proof (induction kvs)
  case Nil
  show ?case by simp
next
  case (Cons kv kvs)
  have "mset (spec_flatten esc pfx (kv # kvs)) =
      mset (spec_flatten esc pfx [kv]) + mset (spec_flatten esc pfx kvs)"
    using spec_flatten_Cons [of esc pfx kv kvs] by simp
  with Cons.IH show ?case by simp
qed

lemma length_spec_flatten: "length (spec_flatten esc pfx kvs) = count_leaves kvs"
  by (induction esc pfx kvs rule: spec_flatten.induct) simp_all

lemma fastjson_Parse_example:
  \<open>fastjson_Parse ''{"a":{"b":"c"},"d":1,"e":null,"f":[1,2],"g":true}''
     = Inr (JObject [(''a'', JObject [(''b'', JString ''c'')]), (''d'', JNumber ''1''),
                     (''e'', JNull), (''f'', JArray [JNumber ''1'', JNumber ''2'']), (''g'', JTrue)])\<close>
  by code_simp

text \<open>
  C1. Whatever tokenizer reads the text
  \<open>{"a":{"b":"c"},"d":1,"e":null,"f":[1,2],"g":true}\<close> into an object with these five
  members, in whatever order it visits them, a parse with the empty prefix succeeds and
  leaves exactly the four fields \<open>a.b\<close> = \<open>c\<close>, \<open>d\<close> = \<open>1\<close>,
  \<open>f\<close> = \<open>[1,2]\<close> and \<open>g\<close> = \<open>true\<close>, each once, and no field named
  \<open>e\<close>.
\<close>

theorem flattening_example:
  assumes \<open>Parse tk ''{"a":{"b":"c"},"d":1,"e":null,"f":[1,2],"g":true}'' = Inr (JObject kvs)\<close>
    and "mset kvs = {#(''a'', JObject [(''b'', JString ''c'')]), (''d'', JNumber ''1''),
                      (''e'', JNull), (''f'', JArray [JNumber ''1'', JNumber ''2'']), (''g'', JTrue)#}"
  shows \<open>fst (parseLogMessage tk ''{"a":{"b":"c"},"d":1,"e":null,"f":[1,2],"g":true}'' [] resetBuf jp) = None
    \<and> mset (Fields (snd (parseLogMessage tk
          ''{"a":{"b":"c"},"d":1,"e":null,"f":[1,2],"g":true}'' [] resetBuf jp)))
       = {#\<lparr>Field.Name = ''a.b'', Value = ''c''\<rparr>, \<lparr>Field.Name = ''d'', Value = ''1''\<rparr>,
           \<lparr>Field.Name = ''f'', Value = ''[1,2]''\<rparr>, \<lparr>Field.Name = ''g'', Value = ''true''\<rparr>#}
    \<and> (\<forall>f \<in> set (Fields (snd (parseLogMessage tk
          ''{"a":{"b":"c"},"d":1,"e":null,"f":[1,2],"g":true}'' [] resetBuf jp))).
          Field.Name f \<noteq> ''e'')\<close>
proof -
  let ?r = \<open>parseLogMessage tk ''{"a":{"b":"c"},"d":1,"e":null,"f":[1,2],"g":true}'' [] resetBuf jp\<close>
  have r: "fst ?r = None" "Fields (snd ?r) = spec_flatten (escapeString tk) [] kvs"
    by (simp_all add: parseLogMessage_object [OF assms(1)])
  have m: "mset (Fields (snd ?r))
       = {#\<lparr>Field.Name = ''a.b'', Value = ''c''\<rparr>, \<lparr>Field.Name = ''d'', Value = ''1''\<rparr>,
           \<lparr>Field.Name = ''f'', Value = ''[1,2]''\<rparr>, \<lparr>Field.Name = ''g'', Value = ''true''\<rparr>#}"
    unfolding r(2) mset_spec_flatten [of _ _ kvs] assms(2)
    by simp
  have "\<forall>f \<in># mset (Fields (snd ?r)). Field.Name f \<noteq> ''e''"
    unfolding m by simp
  then have "\<forall>f \<in> set (Fields (snd ?r)). Field.Name f \<noteq> ''e''"
    by simp
  with r(1) m show ?thesis by simp
qed

text \<open>C1 with the tokenizer \<open>fastjson\<close>, which reads the members in the order of the text.\<close>

theorem flattening_example_witness:
  \<open>Parse fastjson ''{"a":{"b":"c"},"d":1,"e":null,"f":[1,2],"g":true}''
     = Inr (JObject [(''a'', JObject [(''b'', JString ''c'')]), (''d'', JNumber ''1''),
                     (''e'', JNull), (''f'', JArray [JNumber ''1'', JNumber ''2'']), (''g'', JTrue)])
   \<and> fst (parseLogMessage fastjson ''{"a":{"b":"c"},"d":1,"e":null,"f":[1,2],"g":true}'' []
            True JSONParser_zero) = None
   \<and> mset (Fields (snd (parseLogMessage fastjson
            ''{"a":{"b":"c"},"d":1,"e":null,"f":[1,2],"g":true}'' [] True JSONParser_zero)))
       = {#\<lparr>Field.Name = ''a.b'', Value = ''c''\<rparr>, \<lparr>Field.Name = ''d'', Value = ''1''\<rparr>,
           \<lparr>Field.Name = ''f'', Value = ''[1,2]''\<rparr>, \<lparr>Field.Name = ''g'', Value = ''true''\<rparr>#}\<close>
proof -
  have a: \<open>Parse fastjson ''{"a":{"b":"c"},"d":1,"e":null,"f":[1,2],"g":true}''
     = Inr (JObject [(''a'', JObject [(''b'', JString ''c'')]), (''d'', JNumber ''1''),
                     (''e'', JNull), (''f'', JArray [JNumber ''1'', JNumber ''2'']), (''g'', JTrue)])\<close>
    by (simp add: fastjson_def fastjson_Parse_example)
  have b: "mset [(''a'', JObject [(''b'', JString ''c'')]), (''d'', JNumber ''1''),
                     (''e'', JNull), (''f'', JArray [JNumber ''1'', JNumber ''2'']), (''g'', JTrue)]
      = {#(''a'', JObject [(''b'', JString ''c'')]), (''d'', JNumber ''1''),
                      (''e'', JNull), (''f'', JArray [JNumber ''1'', JNumber ''2'']), (''g'', JTrue)#}"
    by simp
  from flattening_example [OF a b, of True JSONParser_zero] a show ?thesis
    by simp
qed

lemma appendLogFields_prefixBuf:
  "snd (snd (appendLogFields esc dst dstBuf pfx v)) = pfx"
  "snd (snd (Visit esc kvs (dst, dstBuf, pfx))) = pfx"
  "snd (snd (appendLogFields_func esc k v (dst, dstBuf, pfx))) = pfx"
  by (simp_all add: flatten_refines)

lemma fastjson_Parse_xyz:
  \<open>fastjson_Parse ''{"x":{"y":{"z":"v"}}}''
     = Inr (JObject [(''x'', JObject [(''y'', JObject [(''z'', JString ''v'')])])])\<close>
  by code_simp

text \<open>
  C7, as stated, fails in its last part: a new parser has an empty prefix buffer, and after
  parsing \<open>{"x":{"y":{"z":"v"}}}\<close> with the prefix \<open>p.\<close> the buffer holds the two
  bytes of the prefix. Its length after the call is not its length before the call.
\<close>

theorem prefix_length_after_parse_counterexample:
  \<open>length (prefixBuf JSONParser_zero) = 0
   \<and> length (prefixBuf (snd (ParseLogMessage fastjson ''{"x":{"y":{"z":"v"}}}'' ''p.''
        JSONParser_zero))) = 2
   \<and> length (prefixBuf (snd (ParseLogMessage fastjson ''{"x":{"y":{"z":"v"}}}'' ''p.''
        JSONParser_zero))) \<noteq> length (prefixBuf JSONParser_zero)\<close>
proof -
  have a: \<open>Parse fastjson ''{"x":{"y":{"z":"v"}}}''
     = Inr (JObject [(''x'', JObject [(''y'', JObject [(''z'', JString ''v'')])])])\<close>
    by (simp add: fastjson_def fastjson_Parse_xyz)
  show ?thesis
    by (simp add: ParseLogMessage_def parseLogMessage_object [OF a] JSONParser_zero_def)
qed

text \<open>
  C7, amended. Parsing \<open>{"x":{"y":{"z":"v"}}}\<close> with the prefix \<open>p.\<close> gives exactly
  one field, \<open>p.x.y.z\<close> with value \<open>v\<close>. The recursion into a nested object is
  entered with the prefix extended by the key and a dot and returns that buffer; the
  closure then hands back the prefix buffer it was given, for every member, and so does
  every call of \<open>appendLogFields\<close>. After a successful parse the prefix buffer of the
  parser holds exactly the prefix passed to the call, the value it was seeded with before
  flattening began, whatever it held before the call.
\<close>

theorem prefix_push_pop:
  \<open>(Parse tk ''{"x":{"y":{"z":"v"}}}''
       = Inr (JObject [(''x'', JObject [(''y'', JObject [(''z'', JString ''v'')])])])
     \<longrightarrow> fst (parseLogMessage tk ''{"x":{"y":{"z":"v"}}}'' ''p.'' resetBuf jp) = None
       \<and> Fields (snd (parseLogMessage tk ''{"x":{"y":{"z":"v"}}}'' ''p.'' resetBuf jp))
           = [\<lparr>Field.Name = ''p.x.y.z'', Value = ''v''\<rparr>])
   \<and> snd (snd (appendLogFields esc dst dstBuf (pfx @ k @ ''.'') v)) = pfx @ k @ ''.''
   \<and> snd (snd (appendLogFields_func esc k v (dst, dstBuf, pfx))) = pfx
   \<and> snd (snd (appendLogFields esc dst dstBuf pfx v)) = pfx
   \<and> (fst (parseLogMessage tk msg prefix resetBuf jp) = None
     \<longrightarrow> prefixBuf (snd (parseLogMessage tk msg prefix resetBuf jp)) = prefix)\<close>
proof (intro conjI impI)
  assume a: \<open>Parse tk ''{"x":{"y":{"z":"v"}}}''
       = Inr (JObject [(''x'', JObject [(''y'', JObject [(''z'', JString ''v'')])])])\<close>
  show \<open>fst (parseLogMessage tk ''{"x":{"y":{"z":"v"}}}'' ''p.'' resetBuf jp) = None\<close>
    by (simp add: parseLogMessage_object [OF a])
  show \<open>Fields (snd (parseLogMessage tk ''{"x":{"y":{"z":"v"}}}'' ''p.'' resetBuf jp))
           = [\<lparr>Field.Name = ''p.x.y.z'', Value = ''v''\<rparr>]\<close>
    by (simp add: parseLogMessage_object [OF a])
next
  show "snd (snd (appendLogFields esc dst dstBuf (pfx @ k @ ''.'') v)) = pfx @ k @ ''.''"
    by (rule appendLogFields_prefixBuf(1))
  show "snd (snd (appendLogFields_func esc k v (dst, dstBuf, pfx))) = pfx"
    by (rule appendLogFields_prefixBuf(3))
  show "snd (snd (appendLogFields esc dst dstBuf pfx v)) = pfx"
    by (rule appendLogFields_prefixBuf(1))
next
  assume ok: "fst (parseLogMessage tk msg prefix resetBuf jp) = None"
  from parseLogMessage_cases [of tk msg prefix resetBuf jp] ok
  obtain kvs where "Parse tk msg = Inr (JObject kvs)" by auto
  then show "prefixBuf (snd (parseLogMessage tk msg prefix resetBuf jp)) = prefix"
    by (simp add: parseLogMessage_object)
qed

text \<open>The amended C7 with the tokenizer \<open>fastjson\<close> on a new parser.\<close>

theorem prefix_push_pop_witness:
  \<open>Parse fastjson ''{"x":{"y":{"z":"v"}}}''
       = Inr (JObject [(''x'', JObject [(''y'', JObject [(''z'', JString ''v'')])])])
   \<and> fst (parseLogMessage fastjson ''{"x":{"y":{"z":"v"}}}'' ''p.'' True JSONParser_zero) = None
   \<and> Fields (snd (parseLogMessage fastjson ''{"x":{"y":{"z":"v"}}}'' ''p.'' True JSONParser_zero))
       = [\<lparr>Field.Name = ''p.x.y.z'', Value = ''v''\<rparr>]
   \<and> prefixBuf (snd (parseLogMessage fastjson ''{"x":{"y":{"z":"v"}}}'' ''p.'' True JSONParser_zero))
       = ''p.''\<close>
proof -
  have a: \<open>Parse fastjson ''{"x":{"y":{"z":"v"}}}''
     = Inr (JObject [(''x'', JObject [(''y'', JObject [(''z'', JString ''v'')])])])\<close>
    by (simp add: fastjson_def fastjson_Parse_xyz)
  note t = prefix_push_pop [where tk = fastjson and resetBuf = True and jp = JSONParser_zero
      and msg = \<open>''{"x":{"y":{"z":"v"}}}''\<close> and prefix = "''p.''"]
  from t a have b: \<open>fst (parseLogMessage fastjson ''{"x":{"y":{"z":"v"}}}'' ''p.'' True JSONParser_zero) = None\<close>
    by blast
  from t a have c: \<open>Fields (snd (parseLogMessage fastjson ''{"x":{"y":{"z":"v"}}}'' ''p.'' True JSONParser_zero))
       = [\<lparr>Field.Name = ''p.x.y.z'', Value = ''v''\<rparr>]\<close>
    by blast
  from t b have d: \<open>prefixBuf (snd (parseLogMessage fastjson ''{"x":{"y":{"z":"v"}}}'' ''p.'' True JSONParser_zero))
       = ''p.''\<close>
    by blast
  from a b c d show ?thesis by simp
qed

lemma fastjson_Parse_dup:
  \<open>fastjson_Parse ''{"a.b":1,"a":{"b":2}}''
     = Inr (JObject [(''a.b'', JNumber ''1''), (''a'', JObject [(''b'', JNumber ''2'')])])\<close>
  by code_simp

text \<open>
  C8. Flattening merges nothing. For every object the tokenizer returns, the fields after
  the parse are the specification's flattening of its members in visiting order: one
  field for each member, at any depth, that is neither null nor an object, so their
  number does not depend on the names. For \<open>{"a.b":1,"a":{"b":2}}\<close>, where two keys
  flatten to \<open>a.b\<close>, both fields are there, in visiting order.
\<close>

theorem no_deduplication:
  \<open>(Parse tk msg = Inr (JObject kvs) \<longrightarrow>
      fst (parseLogMessage tk msg prefix resetBuf jp) = None
      \<and> Fields (snd (parseLogMessage tk msg prefix resetBuf jp))
          = spec_flatten (escapeString tk) prefix kvs
      \<and> length (Fields (snd (parseLogMessage tk msg prefix resetBuf jp))) = count_leaves kvs)
   \<and> (Parse tk ''{"a.b":1,"a":{"b":2}}''
        = Inr (JObject [(''a.b'', JNumber ''1''), (''a'', JObject [(''b'', JNumber ''2'')])]) \<longrightarrow>
      Fields (snd (parseLogMessage tk ''{"a.b":1,"a":{"b":2}}'' [] resetBuf jp))
        = [\<lparr>Field.Name = ''a.b'', Value = ''1''\<rparr>, \<lparr>Field.Name = ''a.b'', Value = ''2''\<rparr>])\<close>
proof (intro conjI impI)
  assume a: "Parse tk msg = Inr (JObject kvs)"
  show "fst (parseLogMessage tk msg prefix resetBuf jp) = None"
    by (simp add: parseLogMessage_object [OF a])
  show "Fields (snd (parseLogMessage tk msg prefix resetBuf jp))
          = spec_flatten (escapeString tk) prefix kvs"
    by (simp add: parseLogMessage_object [OF a])
  show "length (Fields (snd (parseLogMessage tk msg prefix resetBuf jp))) = count_leaves kvs"
    by (simp add: parseLogMessage_object [OF a] length_spec_flatten)
next
  assume b: \<open>Parse tk ''{"a.b":1,"a":{"b":2}}''
        = Inr (JObject [(''a.b'', JNumber ''1''), (''a'', JObject [(''b'', JNumber ''2'')])])\<close>
  show \<open>Fields (snd (parseLogMessage tk ''{"a.b":1,"a":{"b":2}}'' [] resetBuf jp))
        = [\<lparr>Field.Name = ''a.b'', Value = ''1''\<rparr>, \<lparr>Field.Name = ''a.b'', Value = ''2''\<rparr>]\<close>
    by (simp add: parseLogMessage_object [OF b])
qed

text \<open>C8 with the tokenizer \<open>fastjson\<close> on a new parser.\<close>

theorem no_deduplication_witness:
  \<open>Parse fastjson ''{"a.b":1,"a":{"b":2}}''
     = Inr (JObject [(''a.b'', JNumber ''1''), (''a'', JObject [(''b'', JNumber ''2'')])])
   \<and> fst (parseLogMessage fastjson ''{"a.b":1,"a":{"b":2}}'' [] True JSONParser_zero) = None
   \<and> Fields (snd (parseLogMessage fastjson ''{"a.b":1,"a":{"b":2}}'' [] True JSONParser_zero))
        = [\<lparr>Field.Name = ''a.b'', Value = ''1''\<rparr>, \<lparr>Field.Name = ''a.b'', Value = ''2''\<rparr>]
   \<and> length (Fields (snd (parseLogMessage fastjson ''{"a.b":1,"a":{"b":2}}'' [] True
        JSONParser_zero))) = 2\<close>
proof -
  have a: \<open>Parse fastjson ''{"a.b":1,"a":{"b":2}}''
     = Inr (JObject [(''a.b'', JNumber ''1''), (''a'', JObject [(''b'', JNumber ''2'')])])\<close>
    by (simp add: fastjson_def fastjson_Parse_dup)
  note t = no_deduplication [where tk = fastjson and resetBuf = True and jp = JSONParser_zero
      and msg = \<open>''{"a.b":1,"a":{"b":2}}''\<close> and prefix = "[]"
      and kvs = "[(''a.b'', JNumber ''1''), (''a'', JObject [(''b'', JNumber ''2'')])]"]
  from t a have b: \<open>fst (parseLogMessage fastjson ''{"a.b":1,"a":{"b":2}}'' [] True JSONParser_zero) = None\<close>
    by blast
  from t a have c: \<open>Fields (snd (parseLogMessage fastjson ''{"a.b":1,"a":{"b":2}}'' [] True JSONParser_zero))
        = [\<lparr>Field.Name = ''a.b'', Value = ''1''\<rparr>, \<lparr>Field.Name = ''a.b'', Value = ''2''\<rparr>]\<close>
    by blast
  from a b c show ?thesis by simp
qed

lemma spec_flatten_leaf_name:
  assumes "(k, v) \<in> set kvs" and "Value_Type v \<noteq> TypeNull" and "Value_Type v \<noteq> TypeObject"
  shows "\<exists>f \<in> set (spec_flatten esc pfx kvs).
           Field.Name f = pfx @ k
           \<and> Field.Value f = (if Value_Type v = TypeString then GetStringBytes v else marshal esc v)"
proof -
  from assms(1) obtain xs ys where s: "kvs = xs @ (k, v) # ys"
    by (auto simp: in_set_conv_decomp)
  have "\<exists>f \<in> set (spec_flatten esc pfx [(k, v)]).
           Field.Name f = pfx @ k
           \<and> Field.Value f = (if Value_Type v = TypeString then GetStringBytes v else marshal esc v)"
    using assms(2,3) by (cases v) simp_all
  moreover have "spec_flatten esc pfx kvs =
      spec_flatten esc pfx xs @ spec_flatten esc pfx [(k, v)] @ spec_flatten esc pfx ys"
    unfolding s spec_flatten_append
    using spec_flatten_Cons [of esc pfx "(k, v)" ys] by simp
  ultimately show ?thesis by auto
qed

lemma spec_flatten_nested_name:
  assumes "(k, JObject inner) \<in> set kvs" and "(k', v') \<in> set inner"
    and "Value_Type v' \<noteq> TypeNull" and "Value_Type v' \<noteq> TypeObject"
  shows "\<exists>f \<in> set (spec_flatten esc pfx kvs).
           Field.Name f = pfx @ k @ ''.'' @ k'
           \<and> Field.Value f = (if Value_Type v' = TypeString then GetStringBytes v' else marshal esc v')"
proof -
  from assms(1) obtain xs ys where s: "kvs = xs @ (k, JObject inner) # ys"
    by (auto simp: in_set_conv_decomp)
  have "\<exists>f \<in> set (spec_flatten esc (pfx @ k @ ''.'') inner).
           Field.Name f = (pfx @ k @ ''.'') @ k'
           \<and> Field.Value f = (if Value_Type v' = TypeString then GetStringBytes v' else marshal esc v')"
    using assms(2,3,4) by (rule spec_flatten_leaf_name)
  then have "\<exists>f \<in> set (spec_flatten esc pfx [(k, JObject inner)]).
           Field.Name f = pfx @ k @ ''.'' @ k'
           \<and> Field.Value f = (if Value_Type v' = TypeString then GetStringBytes v' else marshal esc v')"
    by simp
  moreover have "spec_flatten esc pfx kvs =
      spec_flatten esc pfx xs @ spec_flatten esc pfx [(k, JObject inner)] @ spec_flatten esc pfx ys"
    unfolding s spec_flatten_append
    using spec_flatten_Cons [of esc pfx "(k, JObject inner)" ys] by simp
  ultimately show ?thesis by auto
qed

lemma spec_flatten_all_leaves:
  assumes "\<forall>kv \<in> set kvs. Value_Type (snd kv) \<noteq> TypeNull \<and> Value_Type (snd kv) \<noteq> TypeObject"
  shows "map Field.Name (spec_flatten esc pfx kvs) = map (\<lambda>kv. pfx @ fst kv) kvs"
  using assms
proof (induction kvs)
  case Nil
  show ?case by simp
next
  case (Cons kv kvs)
  obtain k v where kv: "kv = (k, v)" by (cases kv)
  with Cons.prems have "Value_Type v \<noteq> TypeNull" "Value_Type v \<noteq> TypeObject" by auto
  then have "map Field.Name (spec_flatten esc pfx ((k, v) # kvs))
      = (pfx @ k) # map Field.Name (spec_flatten esc pfx kvs)"
    by (cases v) simp_all
  with Cons kv show ?case by simp
qed

lemma fastjson_Parse_k1: \<open>fastjson_Parse ''{"k":1,"o":{"i":"s"}}''
    = Inr (JObject [(''k'', JNumber ''1''), (''o'', JObject [(''i'', JString ''s'')])])\<close>
  by code_simp

text \<open>
  C10. For every prefix passed to the parse and every top-level member whose value is
  neither null nor an object, there is a field whose name is the prefix immediately
  followed by the key and whose value is that of the member; when all top-level members are of that kind the names of the fields
  are exactly these concatenations, in order. No dot is put between the prefix and the key.
  A dot appears only on the way into a nested object: a member of a nested object gets
  the prefix, the outer key, a dot and its own key as the name of its field.
\<close>

theorem prefix_verbatim:
  assumes "Parse tk msg = Inr (JObject kvs)"
  shows "fst (parseLogMessage tk msg prefix resetBuf jp) = None
    \<and> (\<forall>kv \<in> set kvs. Value_Type (snd kv) \<noteq> TypeNull \<and> Value_Type (snd kv) \<noteq> TypeObject \<longrightarrow>
         (\<exists>f \<in> set (Fields (snd (parseLogMessage tk msg prefix resetBuf jp))).
            Field.Name f = prefix @ fst kv
            \<and> Field.Value f = (if Value_Type (snd kv) = TypeString then GetStringBytes (snd kv)
                                else marshal (escapeString tk) (snd kv))))
    \<and> ((\<forall>kv \<in> set kvs. Value_Type (snd kv) \<noteq> TypeNull \<and> Value_Type (snd kv) \<noteq> TypeObject) \<longrightarrow>
         map Field.Name (Fields (snd (parseLogMessage tk msg prefix resetBuf jp)))
           = map (\<lambda>kv. prefix @ fst kv) kvs)
    \<and> (\<forall>kv \<in> set kvs. \<forall>kv' \<in> set (members (snd kv)).
         Value_Type (snd kv') \<noteq> TypeNull \<and> Value_Type (snd kv') \<noteq> TypeObject \<longrightarrow>
         (\<exists>f \<in> set (Fields (snd (parseLogMessage tk msg prefix resetBuf jp))).
            Field.Name f = prefix @ fst kv @ ''.'' @ fst kv'
            \<and> Field.Value f = (if Value_Type (snd kv') = TypeString then GetStringBytes (snd kv')
                                else marshal (escapeString tk) (snd kv'))))"
proof -
  have f: "Fields (snd (parseLogMessage tk msg prefix resetBuf jp))
      = spec_flatten (escapeString tk) prefix kvs"
    by (simp add: parseLogMessage_object [OF assms])
  have 1: "fst (parseLogMessage tk msg prefix resetBuf jp) = None"
    by (simp add: parseLogMessage_object [OF assms])
  have 2: "\<forall>kv \<in> set kvs. Value_Type (snd kv) \<noteq> TypeNull \<and> Value_Type (snd kv) \<noteq> TypeObject \<longrightarrow>
         (\<exists>f \<in> set (spec_flatten (escapeString tk) prefix kvs).
            Field.Name f = prefix @ fst kv
            \<and> Field.Value f = (if Value_Type (snd kv) = TypeString then GetStringBytes (snd kv)
                                else marshal (escapeString tk) (snd kv)))"
  proof (intro ballI impI)
    fix kv assume "kv \<in> set kvs"
      and "Value_Type (snd kv) \<noteq> TypeNull \<and> Value_Type (snd kv) \<noteq> TypeObject"
    then show "\<exists>f \<in> set (spec_flatten (escapeString tk) prefix kvs).
            Field.Name f = prefix @ fst kv
            \<and> Field.Value f = (if Value_Type (snd kv) = TypeString then GetStringBytes (snd kv)
                                else marshal (escapeString tk) (snd kv))"
      using spec_flatten_leaf_name [of "fst kv" "snd kv" kvs "escapeString tk" prefix] by simp
  qed
  have 3: "(\<forall>kv \<in> set kvs. Value_Type (snd kv) \<noteq> TypeNull \<and> Value_Type (snd kv) \<noteq> TypeObject) \<longrightarrow>
         map Field.Name (spec_flatten (escapeString tk) prefix kvs) = map (\<lambda>kv. prefix @ fst kv) kvs"
    using spec_flatten_all_leaves [of kvs "escapeString tk" prefix] by blast
  have 4: "\<forall>kv \<in> set kvs. \<forall>kv' \<in> set (members (snd kv)).
         Value_Type (snd kv') \<noteq> TypeNull \<and> Value_Type (snd kv') \<noteq> TypeObject \<longrightarrow>
         (\<exists>f \<in> set (spec_flatten (escapeString tk) prefix kvs).
            Field.Name f = prefix @ fst kv @ ''.'' @ fst kv'
            \<and> Field.Value f = (if Value_Type (snd kv') = TypeString then GetStringBytes (snd kv')
                                else marshal (escapeString tk) (snd kv')))"
  proof (intro ballI impI)
    fix kv kv' assume kv: "kv \<in> set kvs" and kv': "kv' \<in> set (members (snd kv))"
      and t: "Value_Type (snd kv') \<noteq> TypeNull \<and> Value_Type (snd kv') \<noteq> TypeObject"
    from kv' obtain inner where i: "snd kv = JObject inner"
      by (cases "snd kv") simp_all
    with kv have "(fst kv, JObject inner) \<in> set kvs"
      by (metis prod.collapse)
    moreover from kv' i have "(fst kv', snd kv') \<in> set inner" by simp
    ultimately show "\<exists>f \<in> set (spec_flatten (escapeString tk) prefix kvs).
            Field.Name f = prefix @ fst kv @ ''.'' @ fst kv'
            \<and> Field.Value f = (if Value_Type (snd kv') = TypeString then GetStringBytes (snd kv')
                                else marshal (escapeString tk) (snd kv'))"
      using t spec_flatten_nested_name [of "fst kv" inner kvs "fst kv'" "snd kv'" "escapeString tk" prefix]
      by simp
  qed
  from 1 2 3 4 show ?thesis unfolding f by blast
qed

text \<open>C10 with the tokenizer \<open>fastjson\<close> and the prefix \<open>p\<close>, which has no dot.\<close>

theorem prefix_verbatim_witness:
  \<open>Parse fastjson ''{"k":1,"o":{"i":"s"}}''
     = Inr (JObject [(''k'', JNumber ''1''), (''o'', JObject [(''i'', JString ''s'')])])
   \<and> fst (parseLogMessage fastjson ''{"k":1,"o":{"i":"s"}}'' ''p'' True JSONParser_zero) = None
   \<and> (\<exists>f \<in> set (Fields (snd (parseLogMessage fastjson ''{"k":1,"o":{"i":"s"}}'' ''p'' True
          JSONParser_zero))). Field.Name f = ''pk'' \<and> Field.Value f = ''1'')
   \<and> (\<exists>f \<in> set (Fields (snd (parseLogMessage fastjson ''{"k":1,"o":{"i":"s"}}'' ''p'' True
          JSONParser_zero))). Field.Name f = ''po.i'' \<and> Field.Value f = ''s'')\<close>
proof -
  have a: \<open>Parse fastjson ''{"k":1,"o":{"i":"s"}}''
     = Inr (JObject [(''k'', JNumber ''1''), (''o'', JObject [(''i'', JString ''s'')])])\<close>
    by (simp add: fastjson_def fastjson_Parse_k1)
  note t = prefix_verbatim [OF a, of "''p''" True JSONParser_zero]
  from t have b: \<open>fst (parseLogMessage fastjson ''{"k":1,"o":{"i":"s"}}'' ''p'' True JSONParser_zero) = None\<close>
    by blast
  from t have c: \<open>\<exists>f \<in> set (Fields (snd (parseLogMessage fastjson ''{"k":1,"o":{"i":"s"}}'' ''p'' True
          JSONParser_zero))). Field.Name f = ''pk'' \<and> Field.Value f = ''1''\<close>
    by simp
  from t have d: \<open>\<exists>f \<in> set (Fields (snd (parseLogMessage fastjson ''{"k":1,"o":{"i":"s"}}'' ''p'' True
          JSONParser_zero))). Field.Name f = ''po.i'' \<and> Field.Value f = ''s''\<close>
    by simp
  from a b c d show ?thesis by blast
qed

subsection \<open>RenameField\<close>

lemma RenameField_range_no_match:
  "oldName \<notin> Field.Name ` set fs \<Longrightarrow> RenameField_range oldName newName fs = fs"
  by (induction fs) auto

lemma RenameField_range_first:
  "oldName \<in> Field.Name ` set fs \<Longrightarrow>
     \<exists>i < length fs. Field.Name (fs ! i) = oldName
        \<and> (\<forall>j < i. Field.Name (fs ! j) \<noteq> oldName)
        \<and> RenameField_range oldName newName fs = fs[i := (fs ! i)\<lparr>Field.Name := newName\<rparr>]"
proof (induction fs)
  case Nil
  then show ?case by simp
next
  case (Cons f fs)
  show ?case
  proof (cases "Field.Name f = oldName")
    case True
    then have "Field.Name ((f # fs) ! 0) = oldName
        \<and> (\<forall>j < 0. Field.Name ((f # fs) ! j) \<noteq> oldName)
        \<and> RenameField_range oldName newName (f # fs)
            = (f # fs)[0 := ((f # fs) ! 0)\<lparr>Field.Name := newName\<rparr>]"
      by simp
    then show ?thesis by blast
  next
    case False
    with Cons.prems have "oldName \<in> Field.Name ` set fs" by auto
    from Cons.IH [OF this] obtain i where i: "i < length fs" "Field.Name (fs ! i) = oldName"
      "\<forall>j < i. Field.Name (fs ! j) \<noteq> oldName"
      "RenameField_range oldName newName fs = fs[i := (fs ! i)\<lparr>Field.Name := newName\<rparr>]"
      by blast
    have "\<forall>j < Suc i. Field.Name ((f # fs) ! j) \<noteq> oldName"
    proof (intro allI impI)
      fix j assume "j < Suc i"
      then show "Field.Name ((f # fs) ! j) \<noteq> oldName"
        using False i(3) by (cases j) simp_all
    qed
    with False i have "Suc i < length (f # fs) \<and> Field.Name ((f # fs) ! Suc i) = oldName
        \<and> (\<forall>j < Suc i. Field.Name ((f # fs) ! j) \<noteq> oldName)
        \<and> RenameField_range oldName newName (f # fs)
            = (f # fs)[Suc i := ((f # fs) ! Suc i)\<lparr>Field.Name := newName\<rparr>]"
      by simp
    then show ?thesis by blast
  qed
qed

lemma RenameField_range_values:
  "map Field.Value (RenameField_range oldName newName fs) = map Field.Value fs"
  by (induction fs) auto

lemma RenameField_range_length:
  "length (RenameField_range oldName newName fs) = length fs"
  by (induction fs) auto

lemma list_update_changes_one:
  "card {j. j < length xs \<and> xs[i := y] ! j \<noteq> xs ! j} \<le> 1"
proof -
  have "\<And>j. j \<noteq> i \<Longrightarrow> xs[i := y] ! j = xs ! j"
    by simp
  then have "{j. j < length xs \<and> xs[i := y] ! j \<noteq> xs ! j} \<subseteq> {i}"
    by blast
  then have "card {j. j < length xs \<and> xs[i := y] ! j \<noteq> xs ! j} \<le> card {i}"
    by (intro card_mono) simp_all
  then show ?thesis by simp
qed

lemma RenameField_range_changes_one:
  "card {j. j < length fs \<and> RenameField_range oldName newName fs ! j \<noteq> fs ! j} \<le> 1"
proof (cases "oldName \<in> Field.Name ` set fs")
  case True
  from RenameField_range_first [OF True, of newName] obtain i where
    "RenameField_range oldName newName fs = fs[i := (fs ! i)\<lparr>Field.Name := newName\<rparr>]"
    by blast
  with list_update_changes_one [of fs i "(fs ! i)\<lparr>Field.Name := newName\<rparr>"]
  show ?thesis by simp
next
  case False
  then show ?thesis by (simp add: RenameField_range_no_match)
qed

text \<open>
  C9. For every parser and all names: \<open>RenameField\<close> returns the parser as it was
  when \<open>oldName\<close> is empty or no field has that name; otherwise there is a first
  field with that name (no field before it has it) and the field list after the call is
  the old one with the name of that one field replaced. The number of fields is kept, at
  most one position of the list differs from before, every field keeps its value, and the
  buffer and the prefix buffer are untouched.
\<close>

theorem RenameField_first_only:
  "(oldName = [] \<or> oldName \<notin> Field.Name ` set (Fields jp) \<longrightarrow> RenameField oldName newName jp = jp)
   \<and> (oldName \<noteq> [] \<and> oldName \<in> Field.Name ` set (Fields jp) \<longrightarrow>
        (\<exists>i < length (Fields jp).
           Field.Name (Fields jp ! i) = oldName
           \<and> (\<forall>j < i. Field.Name (Fields jp ! j) \<noteq> oldName)
           \<and> Fields (RenameField oldName newName jp)
               = (Fields jp)[i := (Fields jp ! i)\<lparr>Field.Name := newName\<rparr>]))
   \<and> length (Fields (RenameField oldName newName jp)) = length (Fields jp)
   \<and> card {j. j < length (Fields jp)
              \<and> Fields (RenameField oldName newName jp) ! j \<noteq> Fields jp ! j} \<le> 1
   \<and> map Field.Value (Fields (RenameField oldName newName jp)) = map Field.Value (Fields jp)
   \<and> buf (RenameField oldName newName jp) = buf jp
   \<and> prefixBuf (RenameField oldName newName jp) = prefixBuf jp"
proof (intro conjI impI)
  assume "oldName = [] \<or> oldName \<notin> Field.Name ` set (Fields jp)"
  then show "RenameField oldName newName jp = jp"
    by (auto simp: RenameField_def RenameField_range_no_match)
next
  assume a: "oldName \<noteq> [] \<and> oldName \<in> Field.Name ` set (Fields jp)"
  then have "Fields (RenameField oldName newName jp) = RenameField_range oldName newName (Fields jp)"
    by (simp add: RenameField_def)
  with a RenameField_range_first [of oldName "Fields jp" newName]
  show "\<exists>i < length (Fields jp).
           Field.Name (Fields jp ! i) = oldName
           \<and> (\<forall>j < i. Field.Name (Fields jp ! j) \<noteq> oldName)
           \<and> Fields (RenameField oldName newName jp)
               = (Fields jp)[i := (Fields jp ! i)\<lparr>Field.Name := newName\<rparr>]"
    by simp
next
  show "length (Fields (RenameField oldName newName jp)) = length (Fields jp)"
    by (simp add: RenameField_def RenameField_range_length)
next
  show "card {j. j < length (Fields jp)
              \<and> Fields (RenameField oldName newName jp) ! j \<noteq> Fields jp ! j} \<le> 1"
    using RenameField_range_changes_one [of "Fields jp" oldName newName]
    by (simp add: RenameField_def)
next
  show "map Field.Value (Fields (RenameField oldName newName jp)) = map Field.Value (Fields jp)"
    by (simp add: RenameField_def RenameField_range_values)
next
  show "buf (RenameField oldName newName jp) = buf jp"
    by (simp add: RenameField_def)
next
  show "prefixBuf (RenameField oldName newName jp) = prefixBuf jp"
    by (simp add: RenameField_def)
qed

text \<open>C9 on three fields, two of which are named \<open>b\<close>.\<close>

theorem RenameField_first_only_witness:
  "RenameField [] ''n''
      \<lparr>Fields = [\<lparr>Field.Name = ''a'', Value = ''1''\<rparr>, \<lparr>Field.Name = ''b'', Value = ''2''\<rparr>,
                 \<lparr>Field.Name = ''b'', Value = ''3''\<rparr>], buf = ''1a2b3b'', prefixBuf = []\<rparr>
     = \<lparr>Fields = [\<lparr>Field.Name = ''a'', Value = ''1''\<rparr>, \<lparr>Field.Name = ''b'', Value = ''2''\<rparr>,
                 \<lparr>Field.Name = ''b'', Value = ''3''\<rparr>], buf = ''1a2b3b'', prefixBuf = []\<rparr>
   \<and> RenameField ''c'' ''n''
      \<lparr>Fields = [\<lparr>Field.Name = ''a'', Value = ''1''\<rparr>, \<lparr>Field.Name = ''b'', Value = ''2''\<rparr>,
                 \<lparr>Field.Name = ''b'', Value = ''3''\<rparr>], buf = ''1a2b3b'', prefixBuf = []\<rparr>
     = \<lparr>Fields = [\<lparr>Field.Name = ''a'', Value = ''1''\<rparr>, \<lparr>Field.Name = ''b'', Value = ''2''\<rparr>,
                 \<lparr>Field.Name = ''b'', Value = ''3''\<rparr>], buf = ''1a2b3b'', prefixBuf = []\<rparr>
   \<and> Fields (RenameField ''b'' ''n''
      \<lparr>Fields = [\<lparr>Field.Name = ''a'', Value = ''1''\<rparr>, \<lparr>Field.Name = ''b'', Value = ''2''\<rparr>,
                 \<lparr>Field.Name = ''b'', Value = ''3''\<rparr>], buf = ''1a2b3b'', prefixBuf = []\<rparr>)
     = [\<lparr>Field.Name = ''a'', Value = ''1''\<rparr>, \<lparr>Field.Name = ''n'', Value = ''2''\<rparr>,
        \<lparr>Field.Name = ''b'', Value = ''3''\<rparr>]
   \<and> buf (RenameField ''b'' ''n''
      \<lparr>Fields = [\<lparr>Field.Name = ''a'', Value = ''1''\<rparr>, \<lparr>Field.Name = ''b'', Value = ''2''\<rparr>,
                 \<lparr>Field.Name = ''b'', Value = ''3''\<rparr>], buf = ''1a2b3b'', prefixBuf = []\<rparr>)
     = ''1a2b3b''"
proof -
  let ?fs = "[\<lparr>Field.Name = ''a'', Value = ''1''\<rparr>, \<lparr>Field.Name = ''b'', Value = ''2''\<rparr>,
                 \<lparr>Field.Name = ''b'', Value = ''3''\<rparr>]"
  let ?jp = "\<lparr>Fields = ?fs, buf = ''1a2b3b'', prefixBuf = []\<rparr>"
  have 1: "RenameField [] ''n'' ?jp = ?jp"
    using RenameField_first_only [of "[]" ?jp "''n''"] by simp
  have 2: "RenameField ''c'' ''n'' ?jp = ?jp"
    using RenameField_first_only [of "''c''" ?jp "''n''"] by simp
  have h: "''b'' \<noteq> [] \<and> ''b'' \<in> Field.Name ` set (Fields ?jp)"
    by simp
  with RenameField_first_only [of "''b''" ?jp "''n''"]
  have "\<exists>i < length (Fields ?jp).
           Field.Name (Fields ?jp ! i) = ''b''
           \<and> (\<forall>j < i. Field.Name (Fields ?jp ! j) \<noteq> ''b'')
           \<and> Fields (RenameField ''b'' ''n'' ?jp)
               = (Fields ?jp)[i := (Fields ?jp ! i)\<lparr>Field.Name := ''n''\<rparr>]"
    by blast
  then obtain i where i: "i < length (Fields ?jp)" "Field.Name (Fields ?jp ! i) = ''b''"
    "\<forall>j < i. Field.Name (Fields ?jp ! j) \<noteq> ''b''"
    "Fields (RenameField ''b'' ''n'' ?jp) = (Fields ?jp)[i := (Fields ?jp ! i)\<lparr>Field.Name := ''n''\<rparr>]"
    by blast
  have "i \<noteq> 0"
  proof
    assume "i = 0"
    with i(2) show False by simp
  qed
  moreover have "\<not> 1 < i"
  proof
    assume "1 < i"
    with i(3) have "Field.Name (Fields ?jp ! 1) \<noteq> ''b''" by blast
    then show False by simp
  qed
  ultimately have "i = 1" by simp
  with i(4) have 3: "Fields (RenameField ''b'' ''n'' ?jp)
     = [\<lparr>Field.Name = ''a'', Value = ''1''\<rparr>, \<lparr>Field.Name = ''n'', Value = ''2''\<rparr>,
        \<lparr>Field.Name = ''b'', Value = ''3''\<rparr>]"
    by simp
  have 4: "buf (RenameField ''b'' ''n'' ?jp) = ''1a2b3b''"
    using RenameField_first_only [of "''b''" ?jp "''n''"] by simp
  from 1 2 3 4 show ?thesis by blast
qed

section \<open>Properties of the admission limits\<close>

text \<open>What each tracker does to the counters and the limits.\<close>

lemma track_many_counters:
  "ignoredSeriesWithTooManyLabels (trackIgnoredSeriesWithTooManyLabels labels g) = ignoredSeriesWithTooManyLabels g + 1"
  "ignoredSeriesWithTooLongLabelName (trackIgnoredSeriesWithTooManyLabels labels g) = ignoredSeriesWithTooLongLabelName g"
  "ignoredSeriesWithTooLongLabelValue (trackIgnoredSeriesWithTooManyLabels labels g) = ignoredSeriesWithTooLongLabelValue g"
  "maxLabelsPerTimeseries (trackIgnoredSeriesWithTooManyLabels labels g) = maxLabelsPerTimeseries g"
  "maxLabelValueLen (trackIgnoredSeriesWithTooManyLabels labels g) = maxLabelValueLen g"
  by (simp_all add: trackIgnoredSeriesWithTooManyLabels_def Let_def)

lemma track_name_counters:
  "ignoredSeriesWithTooManyLabels (trackIgnoredSeriesWithTooLongLabelName l labels g) = ignoredSeriesWithTooManyLabels g"
  "ignoredSeriesWithTooLongLabelName (trackIgnoredSeriesWithTooLongLabelName l labels g) = ignoredSeriesWithTooLongLabelName g + 1"
  "ignoredSeriesWithTooLongLabelValue (trackIgnoredSeriesWithTooLongLabelName l labels g) = ignoredSeriesWithTooLongLabelValue g"
  "maxLabelsPerTimeseries (trackIgnoredSeriesWithTooLongLabelName l labels g) = maxLabelsPerTimeseries g"
  "maxLabelValueLen (trackIgnoredSeriesWithTooLongLabelName l labels g) = maxLabelValueLen g"
  by (simp_all add: trackIgnoredSeriesWithTooLongLabelName_def Let_def)

lemma track_value_counters:
  "ignoredSeriesWithTooManyLabels (trackIgnoredSeriesWithTooLongLabelValue l labels g) = ignoredSeriesWithTooManyLabels g"
  "ignoredSeriesWithTooLongLabelName (trackIgnoredSeriesWithTooLongLabelValue l labels g) = ignoredSeriesWithTooLongLabelName g"
  "ignoredSeriesWithTooLongLabelValue (trackIgnoredSeriesWithTooLongLabelValue l labels g) = ignoredSeriesWithTooLongLabelValue g + 1"
  "maxLabelsPerTimeseries (trackIgnoredSeriesWithTooLongLabelValue l labels g) = maxLabelsPerTimeseries g"
  "maxLabelValueLen (trackIgnoredSeriesWithTooLongLabelValue l labels g) = maxLabelValueLen g"
  by (simp_all add: trackIgnoredSeriesWithTooLongLabelValue_def Let_def)

text \<open>The loop: it rejects exactly when some label is too long, and stops at the first one.\<close>

lemma ExceedingLabels_range_fst:
  "fst (ExceedingLabels_range labels ls g) = (\<exists>l \<in> set ls. name_too_long l \<or> value_too_long g l)"
  by (induction ls) (auto simp: name_too_long_def value_too_long_def)

lemma ExceedingLabels_range_admitted:
  "\<not> fst (ExceedingLabels_range labels ls g) \<Longrightarrow> ExceedingLabels_range labels ls g = (False, g)"
  by (induction ls) (auto split: if_splits)

lemma ExceedingLabels_range_find:
  "ExceedingLabels_range labels ls g =
     (case find (\<lambda>l. name_too_long l \<or> value_too_long g l) ls of
        None \<Rightarrow> (False, g)
      | Some l \<Rightarrow> (True, if name_too_long l then trackIgnoredSeriesWithTooLongLabelName l labels g
                         else trackIgnoredSeriesWithTooLongLabelValue l labels g))"
  by (induction ls) (auto simp: name_too_long_def value_too_long_def)

text \<open>
  C3. For every label set and every state of the package variables, \<open>ExceedingLabels\<close>
  returns true exactly when the set violates at least one of the three limits (too many
  labels, a name longer than \<open>maxLabelNameLen\<close>, a value longer than
  \<open>maxLabelValueLen\<close>); when it returns false the package variables, counters, tickers
  and log included, are what they were.
\<close>

theorem ExceedingLabels_iff_violation:
  "fst (ExceedingLabels labels g) = spec_violates g labels
   \<and> (\<not> fst (ExceedingLabels labels g) \<longrightarrow> snd (ExceedingLabels labels g) = g)"
  using ExceedingLabels_range_admitted [of labels labels g]
  by (auto simp: ExceedingLabels_def spec_violates_def ExceedingLabels_range_fst)

text \<open>
  C4. The checks run in a fixed order and stop at the first violation: the count check
  first, then the labels in the given order, the name of a label before its value. The kind
  reported is that of the specification's ordered scan; on a rejection the counter of that
  kind grows by exactly one, whatever the tickers hold, the other two counters keep their
  values and the limits are untouched; with no violation nothing changes.
\<close>

theorem ExceedingLabels_order:
  "(case spec_first_violation g labels of
      None \<Rightarrow> ExceedingLabels labels g = (False, g)
    | Some k \<Rightarrow>
        fst (ExceedingLabels labels g)
        \<and> counter k (snd (ExceedingLabels labels g)) = counter k g + 1
        \<and> (\<forall>k'. k' \<noteq> k \<longrightarrow> counter k' (snd (ExceedingLabels labels g)) = counter k' g)
        \<and> maxLabelsPerTimeseries (snd (ExceedingLabels labels g)) = maxLabelsPerTimeseries g
        \<and> maxLabelValueLen (snd (ExceedingLabels labels g)) = maxLabelValueLen g)"
proof (cases "int (length labels) > maxLabelsPerTimeseries g")
  case True
  have "\<And>k'. k' \<noteq> TooManyLabels \<Longrightarrow>
      counter k' (trackIgnoredSeriesWithTooManyLabels labels g) = counter k' g"
    subgoal for k' by (cases k') (simp_all add: track_many_counters)
    done
  with True show ?thesis
    by (simp add: spec_first_violation_def ExceedingLabels_def track_many_counters)
next
  case False
  show ?thesis
  proof (cases "find (\<lambda>l. name_too_long l \<or> value_too_long g l) labels")
    case None
    with False show ?thesis
      by (simp add: spec_first_violation_def ExceedingLabels_def ExceedingLabels_range_find)
  next
    case (Some l)
    have n: "\<And>k'. k' \<noteq> LabelNameTooLong \<Longrightarrow>
      counter k' (trackIgnoredSeriesWithTooLongLabelName l labels g) = counter k' g"
      subgoal for k' by (cases k') (simp_all add: track_name_counters)
      done
    have v: "\<And>k'. k' \<noteq> LabelValueTooLong \<Longrightarrow>
      counter k' (trackIgnoredSeriesWithTooLongLabelValue l labels g) = counter k' g"
      subgoal for k' by (cases k') (simp_all add: track_value_counters)
      done
    from False Some n v show ?thesis
      by (simp add: spec_first_violation_def ExceedingLabels_def ExceedingLabels_range_find
          track_name_counters track_value_counters)
  qed
qed


lemma ExceedingLabels_admitted:
  assumes "int (length labels) \<le> maxLabelsPerTimeseries g"
    and "\<forall>l \<in> set labels. length (Label.Name l) \<le> 256 \<and> int (length (Label.Value l)) \<le> maxLabelValueLen g"
  shows "ExceedingLabels labels g = (False, g)"
proof -
  have "\<not> fst (ExceedingLabels_range labels labels g)"
    using assms(2)
    by (auto simp: ExceedingLabels_range_fst name_too_long_def value_too_long_def maxLabelNameLen_def)
  then have "ExceedingLabels_range labels labels g = (False, g)"
    by (rule ExceedingLabels_range_admitted)
  with assms(1) show ?thesis
    by (simp add: ExceedingLabels_def)
qed

lemma ExceedingLabels_rejected:
  assumes "l \<in> set labels" and "name_too_long l \<or> value_too_long g l"
  shows "fst (ExceedingLabels labels g)"
  using assms by (auto simp: ExceedingLabels_def ExceedingLabels_range_fst)

text \<open>
  C2. The limits are exclusive bounds. With \<open>maxLabelsPerTimeseries = 40\<close> a set of
  exactly 40 labels that are within the length limits is admitted and nothing changes; a
  set of 41 labels is rejected and the counter of too many labels grows by exactly one,
  the other two staying as they were. With \<open>maxLabelValueLen = 4096\<close> values of up to
  4096 bytes pass and a value of 4097 bytes is rejected; names of up to 256 bytes pass and
  a name of 257 bytes is rejected.
\<close>

theorem ExceedingLabels_bounds_exclusive:
  "(maxLabelsPerTimeseries g = 40 \<and> length labels = 40
      \<and> (\<forall>l \<in> set labels. length (Label.Name l) \<le> 256
            \<and> int (length (Label.Value l)) \<le> maxLabelValueLen g)
    \<longrightarrow> ExceedingLabels labels g = (False, g))
   \<and> (maxLabelsPerTimeseries g = 40 \<and> length labels = 41
    \<longrightarrow> fst (ExceedingLabels labels g)
        \<and> ignoredSeriesWithTooManyLabels (snd (ExceedingLabels labels g))
            = ignoredSeriesWithTooManyLabels g + 1
        \<and> ignoredSeriesWithTooLongLabelName (snd (ExceedingLabels labels g))
            = ignoredSeriesWithTooLongLabelName g
        \<and> ignoredSeriesWithTooLongLabelValue (snd (ExceedingLabels labels g))
            = ignoredSeriesWithTooLongLabelValue g)
   \<and> (maxLabelValueLen g = 4096 \<and> int (length labels) \<le> maxLabelsPerTimeseries g
      \<and> (\<forall>l \<in> set labels. length (Label.Name l) \<le> 256 \<and> length (Label.Value l) \<le> 4096)
    \<longrightarrow> ExceedingLabels labels g = (False, g))
   \<and> (maxLabelValueLen g = 4096 \<and> (\<exists>l \<in> set labels. length (Label.Value l) = 4097)
    \<longrightarrow> fst (ExceedingLabels labels g))
   \<and> ((\<exists>l \<in> set labels. length (Label.Name l) = 257)
    \<longrightarrow> fst (ExceedingLabels labels g))"
proof (intro conjI impI)
  assume "maxLabelsPerTimeseries g = 40 \<and> length labels = 40
      \<and> (\<forall>l \<in> set labels. length (Label.Name l) \<le> 256
            \<and> int (length (Label.Value l)) \<le> maxLabelValueLen g)"
  then show "ExceedingLabels labels g = (False, g)"
    by (intro ExceedingLabels_admitted) simp_all
next
  assume a: "maxLabelsPerTimeseries g = 40 \<and> length labels = 41"
  then have e: "ExceedingLabels labels g = (True, trackIgnoredSeriesWithTooManyLabels labels g)"
    by (simp add: ExceedingLabels_def)
  show "fst (ExceedingLabels labels g)" by (simp add: e)
  show "ignoredSeriesWithTooManyLabels (snd (ExceedingLabels labels g))
            = ignoredSeriesWithTooManyLabels g + 1"
    by (simp add: e track_many_counters)
  show "ignoredSeriesWithTooLongLabelName (snd (ExceedingLabels labels g))
            = ignoredSeriesWithTooLongLabelName g"
    by (simp add: e track_many_counters)
  show "ignoredSeriesWithTooLongLabelValue (snd (ExceedingLabels labels g))
            = ignoredSeriesWithTooLongLabelValue g"
    by (simp add: e track_many_counters)
next
  assume "maxLabelValueLen g = 4096 \<and> int (length labels) \<le> maxLabelsPerTimeseries g
      \<and> (\<forall>l \<in> set labels. length (Label.Name l) \<le> 256 \<and> length (Label.Value l) \<le> 4096)"
  then show "ExceedingLabels labels g = (False, g)"
    by (intro ExceedingLabels_admitted) simp_all
next
  assume "maxLabelValueLen g = 4096 \<and> (\<exists>l \<in> set labels. length (Label.Value l) = 4097)"
  then obtain l where "l \<in> set labels" "value_too_long g l"
    by (auto simp: value_too_long_def)
  then show "fst (ExceedingLabels labels g)"
    by (intro ExceedingLabels_rejected [of l]) simp_all
next
  assume "\<exists>l \<in> set labels. length (Label.Name l) = 257"
  then obtain l where "l \<in> set labels" "name_too_long l"
    by (auto simp: name_too_long_def maxLabelNameLen_def)
  then show "fst (ExceedingLabels labels g)"
    by (intro ExceedingLabels_rejected [of l]) simp_all
qed

text \<open>The statement of C2 on concrete label sets, from the initial package variables.\<close>

theorem ExceedingLabels_bounds_exclusive_witness:
  "ExceedingLabels (replicate 40 \<lparr>Label.Name = replicate 256 CHR ''n'', Value = replicate 4096 CHR ''v''\<rparr>)
      initial_globals = (False, initial_globals)
   \<and> fst (ExceedingLabels (replicate 41 \<lparr>Label.Name = ''n'', Value = ''v''\<rparr>) initial_globals)
   \<and> ignoredSeriesWithTooManyLabels
        (snd (ExceedingLabels (replicate 41 \<lparr>Label.Name = ''n'', Value = ''v''\<rparr>) initial_globals)) = 1
   \<and> fst (ExceedingLabels [\<lparr>Label.Name = ''n'', Value = replicate 4097 CHR ''v''\<rparr>] initial_globals)
   \<and> fst (ExceedingLabels [\<lparr>Label.Name = replicate 257 CHR ''n'', Value = ''v''\<rparr>] initial_globals)"
  using
    ExceedingLabels_bounds_exclusive [of initial_globals
      "replicate 40 \<lparr>Label.Name = replicate 256 CHR ''n'', Value = replicate 4096 CHR ''v''\<rparr>"]
    ExceedingLabels_bounds_exclusive [of initial_globals
      "replicate 41 \<lparr>Label.Name = ''n'', Value = ''v''\<rparr>"]
    ExceedingLabels_bounds_exclusive [of initial_globals
      "[\<lparr>Label.Name = ''n'', Value = replicate 4097 CHR ''v''\<rparr>]"]
    ExceedingLabels_bounds_exclusive [of initial_globals
      "[\<lparr>Label.Name = replicate 257 CHR ''n'', Value = ''v''\<rparr>]"]
  by (simp add: initial_globals_def)

text \<open>The statement of C3 on concrete label sets, from the initial package variables.\<close>

theorem ExceedingLabels_iff_violation_witness:
  "fst (ExceedingLabels [\<lparr>Label.Name = ''n'', Value = replicate 4097 CHR ''v''\<rparr>] initial_globals)
   \<and> spec_violates initial_globals [\<lparr>Label.Name = ''n'', Value = replicate 4097 CHR ''v''\<rparr>]
   \<and> \<not> fst (ExceedingLabels [\<lparr>Label.Name = ''n'', Value = ''v''\<rparr>] initial_globals)
   \<and> snd (ExceedingLabels [\<lparr>Label.Name = ''n'', Value = ''v''\<rparr>] initial_globals) = initial_globals"
  using
    ExceedingLabels_iff_violation [of "[\<lparr>Label.Name = ''n'', Value = replicate 4097 CHR ''v''\<rparr>]" initial_globals]
    ExceedingLabels_iff_violation [of "[\<lparr>Label.Name = ''n'', Value = ''v''\<rparr>]" initial_globals]
  by (simp add: spec_violates_def value_too_long_def name_too_long_def maxLabelNameLen_def initial_globals_def)


text \<open>The statement of C4 on concrete label sets, from the initial package variables.\<close>

theorem ExceedingLabels_order_witness:
  "spec_first_violation initial_globals
      (replicate 41 \<lparr>Label.Name = replicate 257 CHR ''n'', Value = replicate 4097 CHR ''v''\<rparr>)
     = Some TooManyLabels
   \<and> ignoredSeriesWithTooManyLabels (snd (ExceedingLabels
        (replicate 41 \<lparr>Label.Name = replicate 257 CHR ''n'', Value = replicate 4097 CHR ''v''\<rparr>)
        initial_globals)) = 1
   \<and> ignoredSeriesWithTooLongLabelName (snd (ExceedingLabels
        (replicate 41 \<lparr>Label.Name = replicate 257 CHR ''n'', Value = replicate 4097 CHR ''v''\<rparr>)
        initial_globals)) = 0
   \<and> spec_first_violation initial_globals
        [\<lparr>Label.Name = ''a'', Value = ''b''\<rparr>,
         \<lparr>Label.Name = replicate 257 CHR ''n'', Value = replicate 4097 CHR ''v''\<rparr>,
         \<lparr>Label.Name = ''c'', Value = replicate 4097 CHR ''v''\<rparr>]
     = Some LabelNameTooLong
   \<and> ignoredSeriesWithTooLongLabelName (snd (ExceedingLabels
        [\<lparr>Label.Name = ''a'', Value = ''b''\<rparr>,
         \<lparr>Label.Name = replicate 257 CHR ''n'', Value = replicate 4097 CHR ''v''\<rparr>,
         \<lparr>Label.Name = ''c'', Value = replicate 4097 CHR ''v''\<rparr>]
        initial_globals)) = 1
   \<and> ignoredSeriesWithTooLongLabelValue (snd (ExceedingLabels
        [\<lparr>Label.Name = ''a'', Value = ''b''\<rparr>,
         \<lparr>Label.Name = replicate 257 CHR ''n'', Value = replicate 4097 CHR ''v''\<rparr>,
         \<lparr>Label.Name = ''c'', Value = replicate 4097 CHR ''v''\<rparr>]
        initial_globals)) = 0
   \<and> spec_first_violation initial_globals
        [\<lparr>Label.Name = ''c'', Value = replicate 4097 CHR ''v''\<rparr>,
         \<lparr>Label.Name = replicate 257 CHR ''n'', Value = ''b''\<rparr>]
     = Some LabelValueTooLong
   \<and> ignoredSeriesWithTooLongLabelValue (snd (ExceedingLabels
        [\<lparr>Label.Name = ''c'', Value = replicate 4097 CHR ''v''\<rparr>,
         \<lparr>Label.Name = replicate 257 CHR ''n'', Value = ''b''\<rparr>]
        initial_globals)) = 1
   \<and> ignoredSeriesWithTooLongLabelName (snd (ExceedingLabels
        [\<lparr>Label.Name = ''c'', Value = replicate 4097 CHR ''v''\<rparr>,
         \<lparr>Label.Name = replicate 257 CHR ''n'', Value = ''b''\<rparr>]
        initial_globals)) = 0
   \<and> spec_first_violation initial_globals [\<lparr>Label.Name = ''a'', Value = ''b''\<rparr>] = None
   \<and> ExceedingLabels [\<lparr>Label.Name = ''a'', Value = ''b''\<rparr>] initial_globals
       = (False, initial_globals)"
proof -
  let ?L1 = "replicate 41 \<lparr>Label.Name = replicate 257 CHR ''n'', Value = replicate 4097 CHR ''v''\<rparr>"
  let ?L2 = "[\<lparr>Label.Name = ''a'', Value = ''b''\<rparr>,
         \<lparr>Label.Name = replicate 257 CHR ''n'', Value = replicate 4097 CHR ''v''\<rparr>,
         \<lparr>Label.Name = ''c'', Value = replicate 4097 CHR ''v''\<rparr>]"
  let ?L3 = "[\<lparr>Label.Name = ''c'', Value = replicate 4097 CHR ''v''\<rparr>,
         \<lparr>Label.Name = replicate 257 CHR ''n'', Value = ''b''\<rparr>]"
  let ?L4 = "[\<lparr>Label.Name = ''a'', Value = ''b''\<rparr>]"
  have g: "maxLabelsPerTimeseries initial_globals = 40" "maxLabelValueLen initial_globals = 4096"
    "ignoredSeriesWithTooManyLabels initial_globals = 0"
    "ignoredSeriesWithTooLongLabelName initial_globals = 0"
    "ignoredSeriesWithTooLongLabelValue initial_globals = 0"
    by (simp_all add: initial_globals_def)
  have 1: "spec_first_violation initial_globals ?L1 = Some TooManyLabels"
    by (simp add: spec_first_violation_def g)
  have 2: "spec_first_violation initial_globals ?L2 = Some LabelNameTooLong"
    by (simp add: spec_first_violation_def g name_too_long_def value_too_long_def maxLabelNameLen_def)
  have 3: "spec_first_violation initial_globals ?L3 = Some LabelValueTooLong"
    by (simp add: spec_first_violation_def g name_too_long_def value_too_long_def maxLabelNameLen_def)
  have 4: "spec_first_violation initial_globals ?L4 = None"
    by (simp add: spec_first_violation_def g name_too_long_def value_too_long_def maxLabelNameLen_def)
  have a: "counter TooManyLabels (snd (ExceedingLabels ?L1 initial_globals)) = 1
      \<and> counter LabelNameTooLong (snd (ExceedingLabels ?L1 initial_globals)) = 0"
    using ExceedingLabels_order [where g = initial_globals and labels = ?L1] unfolding 1
    by (auto simp: g)
  have b: "counter LabelNameTooLong (snd (ExceedingLabels ?L2 initial_globals)) = 1
      \<and> counter LabelValueTooLong (snd (ExceedingLabels ?L2 initial_globals)) = 0"
    using ExceedingLabels_order [where g = initial_globals and labels = ?L2] unfolding 2
    by (auto simp: g)
  have c: "counter LabelValueTooLong (snd (ExceedingLabels ?L3 initial_globals)) = 1
      \<and> counter LabelNameTooLong (snd (ExceedingLabels ?L3 initial_globals)) = 0"
    using ExceedingLabels_order [where g = initial_globals and labels = ?L3] unfolding 3
    by (auto simp: g)
  have d: "ExceedingLabels ?L4 initial_globals = (False, initial_globals)"
    using ExceedingLabels_order [where g = initial_globals and labels = ?L4] unfolding 4
    by simp
  from a b c d 1 2 3 4 show ?thesis
    by simp
qed

end
